theory Spec2Isabelle
  imports Complex_Main "HOL-Library.Sublist" "HOL-Library.Multiset"
begin

section \<open>Values of the program\<close>

text \<open>
  The exceptions that the modelled part of \<^verbatim>\<open>video_processor.py\<close> can raise.
  \<^verbatim>\<open>datetime.strptime\<close>, the \<^verbatim>\<open>datetime\<close> constructor and \<^verbatim>\<open>float\<close> raise
  \<^verbatim>\<open>ValueError\<close>; \<^verbatim>\<open>timedelta(seconds=...)\<close> and \<^verbatim>\<open>datetime + timedelta\<close> raise
  \<^verbatim>\<open>OverflowError\<close>, as does the conversion of an integer too large for a float;
  \<^verbatim>\<open>process_single_file\<close> raises \<^verbatim>\<open>ValueError\<close> itself. \<open>ToolError\<close> stands for
  an exception of a call that leaves the program (FFmpeg fails, a directory cannot be
  listed, a file cannot be removed), with the text of the exception.
\<close>

datatype error = ValueError | OverflowError | ToolError string

text \<open>
  A naive \<^verbatim>\<open>datetime\<close> is represented by the number of seconds since
  0001-01-01T00:00:00. Every datetime of the program has a zero microsecond field (the
  formats parsed have no fraction and segment lengths are integers), so the number of
  seconds identifies it, and Python's comparison of two datetimes is the comparison of
  these numbers. The calendar functions follow the ones of Python's \<^verbatim>\<open>datetime\<close>
  module.
\<close>

type_synonym datetime = int

definition is_leap :: "int \<Rightarrow> bool" where
  "is_leap y = (y mod 4 = 0 \<and> (y mod 100 \<noteq> 0 \<or> y mod 400 = 0))"

definition days_before_year :: "int \<Rightarrow> int" where
  "days_before_year y = (y - 1) * 365 + (y - 1) div 4 - (y - 1) div 100 + (y - 1) div 400"

definition month_lengths :: "int list" where
  "month_lengths = [31, 28, 31, 30, 31, 30, 31, 31, 30, 31, 30, 31]"

definition days_in_month :: "int \<Rightarrow> int \<Rightarrow> int" where
  "days_in_month y m =
     (if m = 2 \<and> is_leap y then 29 else month_lengths ! nat (m - 1))"

definition days_before_month :: "int \<Rightarrow> int \<Rightarrow> int" where
  "days_before_month y m =
     sum_list (take (nat (m - 1)) month_lengths) + (if 2 < m \<and> is_leap y then 1 else 0)"

definition ymd2ord :: "int \<Rightarrow> int \<Rightarrow> int \<Rightarrow> int" where
  "ymd2ord y m d = days_before_year y + days_before_month y m + d"

text \<open>The ordinal of 9999-12-31, the last day a datetime can hold.\<close>

definition max_ordinal :: int where
  "max_ordinal = 3652059"

definition datetime_in_range :: "int \<Rightarrow> bool" where
  "datetime_in_range t = (0 \<le> t \<and> t < max_ordinal * 86400)"

text \<open>
  The constructor \<^verbatim>\<open>datetime(year, month, day, hour, minute, second)\<close>: it raises
  \<^verbatim>\<open>ValueError\<close> on a field out of range.
\<close>

definition datetime_new :: "int \<Rightarrow> int \<Rightarrow> int \<Rightarrow> int \<Rightarrow> int \<Rightarrow> int \<Rightarrow> error + datetime" where
  "datetime_new y m d hh mm ss =
     (if 1 \<le> y \<and> y \<le> 9999 \<and> 1 \<le> m \<and> m \<le> 12 \<and> 1 \<le> d \<and> d \<le> days_in_month y m
         \<and> 0 \<le> hh \<and> hh \<le> 23 \<and> 0 \<le> mm \<and> mm \<le> 59 \<and> 0 \<le> ss \<and> ss \<le> 59
      then Inr ((ymd2ord y m d - 1) * 86400 + hh * 3600 + mm * 60 + ss)
      else Inl ValueError)"

text \<open>
  \<^verbatim>\<open>dt + timedelta(seconds=n)\<close> for an integer \<^verbatim>\<open>n\<close>. The \<^verbatim>\<open>timedelta\<close> constructor
  raises \<^verbatim>\<open>OverflowError\<close> beyond 999999999 days and the addition raises
  \<^verbatim>\<open>OverflowError\<close> when the sum leaves the years 1 to 9999; the second range lies
  inside the first, so one check stands for both.
\<close>

definition add_seconds :: "datetime \<Rightarrow> int \<Rightarrow> error + datetime" where
  "add_seconds t n = (if datetime_in_range (t + n) then Inr (t + n) else Inl OverflowError)"

text \<open>
  A Python \<^verbatim>\<open>float\<close> is an IEEE 754 binary64 value: a finite value, given by the
  rational number it stands for, an infinity (\<open>Inf True\<close> is the negative one) or a NaN.
  The two zeros are one value here, as they are for Python's \<^verbatim>\<open>==\<close>.
\<close>

datatype py_float = Finite rat | Inf bool | NaN

definition pow2 :: "int \<Rightarrow> rat" where
  "pow2 k = (if 0 \<le> k then 2 ^ nat k else 1 / 2 ^ nat (- k))"

function bit_length :: "int \<Rightarrow> int" where
  "bit_length n = (if n \<le> 0 then 0 else 1 + bit_length (n div 2))"
  by pat_completeness auto
termination
  by (relation "measure nat") auto

text \<open>The exponent of the leading bit of a positive rational number.\<close>

definition floor_log2 :: "rat \<Rightarrow> int" where
  "floor_log2 q =
     (case quotient_of q of
        (p, d) \<Rightarrow>
          (let k = bit_length p - bit_length d
           in if pow2 k \<le> q then k else k - 1))"

definition round_half_even :: "rat \<Rightarrow> int" where
  "round_half_even x =
     (let f = \<lfloor>x\<rfloor>; r = x - of_int f
      in if r < 1 / 2 then f else if 1 / 2 < r then f + 1 else if even f then f else f + 1)"

text \<open>
  The binary64 value nearest to a rational number, ties to the even significand: the
  number is written as \<open>m * 2 ^ e\<close> with 53 significant bits (fewer below the smallest
  normal number, where \<open>e\<close> stays at -1074) and \<open>m\<close> is rounded; a result of \<open>2 ^ 1024\<close>
  or more is an infinity. Python converts a decimal text, an integer and the exact
  result of an arithmetic operation to a float in this way.
\<close>

definition binary64 :: "rat \<Rightarrow> py_float" where
  "binary64 q =
     (if q = 0 then Finite 0
      else
        (let a = \<bar>q\<bar>;
             e = max (floor_log2 a - 52) (- 1074);
             m = round_half_even (a / pow2 e)
         in if 971 < e \<or> (e = 971 \<and> 2 ^ 53 \<le> m) then Inf (q < 0)
            else Finite (if q < 0 then - (of_int m * pow2 e) else of_int m * pow2 e)))"

text \<open>
  The float of a Python integer, as the operand of a float operation is converted: an
  integer beyond the range of a float raises \<^verbatim>\<open>OverflowError\<close>.
\<close>

definition float_of_int :: "int \<Rightarrow> error + py_float" where
  "float_of_int n =
     (case binary64 (of_int n) of
        Finite x \<Rightarrow> Inr (Finite x)
      | Inf b \<Rightarrow> Inl OverflowError
      | NaN \<Rightarrow> Inl OverflowError)"

fun float_sub :: "py_float \<Rightarrow> py_float \<Rightarrow> py_float" where
  "float_sub (Finite x) (Finite y) = binary64 (x - y)"
| "float_sub (Finite x) (Inf b) = Inf (\<not> b)"
| "float_sub (Inf a) (Finite y) = Inf a"
| "float_sub (Inf a) (Inf b) = (if a = b then NaN else Inf a)"
| "float_sub NaN y = NaN"
| "float_sub x NaN = NaN"

fun float_abs :: "py_float \<Rightarrow> py_float" where
  "float_abs (Finite x) = Finite \<bar>x\<bar>"
| "float_abs (Inf a) = Inf False"
| "float_abs NaN = NaN"

fun float_less :: "py_float \<Rightarrow> py_float \<Rightarrow> bool" where
  "float_less (Finite x) (Finite y) = (x < y)"
| "float_less (Finite x) (Inf b) = (\<not> b)"
| "float_less (Inf a) (Finite y) = a"
| "float_less (Inf a) (Inf b) = (a \<and> \<not> b)"
| "float_less NaN y = False"
| "float_less x NaN = False"

text \<open>
  A GPS record, the dictionary with the keys \<^verbatim>\<open>timestamp\<close>, \<^verbatim>\<open>latitude\<close> and
  \<^verbatim>\<open>longitude\<close>.
\<close>

record gps_record =
  timestamp :: datetime
  latitude :: py_float
  longitude :: py_float

section \<open>The regular expression of the metadata parser\<close>

text \<open>
  The part of Python's \<^verbatim>\<open>re\<close> that the pattern of \<^verbatim>\<open>parse_gps_data\<close> uses: single
  characters and character classes, a class repeated exactly \<open>n\<close> times, \<open>*\<close>, \<open>+\<close> and
  \<open>?\<close> on a class, concatenation and capturing groups. The text is a list of
  characters below U+0100; there \<^verbatim>\<open>\d\<close> is an ASCII digit and \<^verbatim>\<open>\s\<close> is one of the
  code points Python's \<^verbatim>\<open>str.isspace\<close> accepts.
\<close>

datatype atom = Lit char | Digit | Space | OneOf string

datatype regex =
    Atom atom
  | Rep atom nat
  | Star atom
  | Plus atom
  | Opt atom
  | Seq regex regex
  | Group regex

definition is_digit :: "char \<Rightarrow> bool" where
  "is_digit c = (48 \<le> (of_char c :: nat) \<and> (of_char c :: nat) \<le> 57)"

definition is_space :: "char \<Rightarrow> bool" where
  "is_space c =
     (let n = (of_char c :: nat)
      in (9 \<le> n \<and> n \<le> 13) \<or> (28 \<le> n \<and> n \<le> 32) \<or> n = 133 \<or> n = 160)"

fun accepts :: "atom \<Rightarrow> char \<Rightarrow> bool" where
  "accepts (Lit a) c = (c = a)"
| "accepts Digit c = is_digit c"
| "accepts Space c = is_space c"
| "accepts (OneOf cs) c = (c \<in> set cs)"

text \<open>
  A backtracking matcher as a list of successes: every way the expression can match a
  prefix of the text, in the order in which the engine tries them (a greedy repetition
  tries the longest run first), each with the captured groups and the text that is left.
  The engine's match is the head of the list.
\<close>

fun greedy :: "atom \<Rightarrow> string \<Rightarrow> string list" where
  "greedy a [] = [[]]"
| "greedy a (c # cs) = (if accepts a c then greedy a cs @ [c # cs] else [c # cs])"

fun mtch :: "regex \<Rightarrow> string \<Rightarrow> (string list \<times> string) list" where
  "mtch (Atom a) s =
     (case s of [] \<Rightarrow> [] | c # cs \<Rightarrow> if accepts a c then [([], cs)] else [])"
| "mtch (Rep a n) s =
     (if n \<le> length s \<and> list_all (accepts a) (take n s) then [([], drop n s)] else [])"
| "mtch (Star a) s = map (Pair []) (greedy a s)"
| "mtch (Plus a) s =
     (case s of [] \<Rightarrow> [] | c # cs \<Rightarrow> if accepts a c then map (Pair []) (greedy a cs) else [])"
| "mtch (Opt a) s =
     (case s of [] \<Rightarrow> [([], [])]
      | c # cs \<Rightarrow> if accepts a c then [([], cs), ([], c # cs)] else [([], c # cs)])"
| "mtch (Seq r1 r2) s =
     concat (map (\<lambda>(g1, s1). map (\<lambda>(g2, s2). (g1 @ g2, s2)) (mtch r2 s1)) (mtch r1 s))"
| "mtch (Group r) s =
     map (\<lambda>(g, s'). (take (length s - length s') s # g, s')) (mtch r s)"

text \<open>
  \<^verbatim>\<open>pattern.findall\<close>: the matches from left to right, not overlapping; the search goes
  on where the last match ended, and one character further where there is no match (or
  an empty one, which the pattern below never gives).
\<close>

function findall :: "regex \<Rightarrow> string \<Rightarrow> string list list" where
  "findall r s =
     (case mtch r s of
        [] \<Rightarrow> (case s of [] \<Rightarrow> [] | _ # cs \<Rightarrow> findall r cs)
      | (g, s') # _ \<Rightarrow>
          (if length s' < length s then g # findall r s'
           else g # (case s of [] \<Rightarrow> [] | _ # cs \<Rightarrow> findall r cs)))"
  by pat_completeness auto
termination
  by (relation "measure (\<lambda>(r, s). length s)") auto

text \<open>
  The pattern of \<^verbatim>\<open>parse_gps_data\<close>:
  \<^verbatim>\<open>(\d{4}:\d{2}:\d{2} \d{2}:\d{2}:\d{2}Z)\s*([+-]?\d+\.\d+)\s*([+-]\d+\.\d+)\<close>
\<close>

fun seqs :: "regex list \<Rightarrow> regex" where
  "seqs [] = Rep Digit 0"
| "seqs [r] = r"
| "seqs (r # rs) = Seq r (seqs rs)"

definition timestamp_re :: regex where
  "timestamp_re =
     seqs [Rep Digit 4, Atom (Lit CHR '':''), Rep Digit 2, Atom (Lit CHR '':''), Rep Digit 2,
           Atom (Lit CHR '' ''),
           Rep Digit 2, Atom (Lit CHR '':''), Rep Digit 2, Atom (Lit CHR '':''), Rep Digit 2,
           Atom (Lit CHR ''Z'')]"

definition latitude_re :: regex where
  "latitude_re = seqs [Opt (OneOf ''+-''), Plus Digit, Atom (Lit CHR ''.''), Plus Digit]"

definition longitude_re :: regex where
  "longitude_re = seqs [Atom (OneOf ''+-''), Plus Digit, Atom (Lit CHR ''.''), Plus Digit]"

definition gps_pattern :: regex where
  "gps_pattern =
     seqs [Group timestamp_re, Star Space, Group latitude_re, Star Space, Group longitude_re]"

section \<open>The metadata parser\<close>

text \<open>
  \<^verbatim>\<open>datetime.strptime(ts_str, "%Y:%m:%d %H:%M:%SZ")\<close> on the texts the first group of
  the pattern captures: four digits for the year and two for every other field. The
  directives accept the month 01 to 12, the day 01 to 31, the hour 00 to 23, the minute
  00 to 59 and the second 00 to 61; the datetime is then built by the constructor, which
  checks the day against the month and refuses the year 0 and the seconds 60 and 61.
  Both failures are a \<^verbatim>\<open>ValueError\<close>. A text of another layout is outside this model
  and is given \<^verbatim>\<open>ValueError\<close>.
\<close>

definition digits_val :: "string \<Rightarrow> int" where
  "digits_val s = foldl (\<lambda>n c. 10 * n + (int (of_char c) - 48)) 0 s"

definition field :: "string \<Rightarrow> nat \<Rightarrow> nat \<Rightarrow> string" where
  "field s i n = take n (drop i s)"

definition timestamp_layout :: "string \<Rightarrow> bool" where
  "timestamp_layout s =
     (length s = 20
      \<and> list_all is_digit (field s 0 4) \<and> s ! 4 = CHR '':''
      \<and> list_all is_digit (field s 5 2) \<and> s ! 7 = CHR '':''
      \<and> list_all is_digit (field s 8 2) \<and> s ! 10 = CHR '' ''
      \<and> list_all is_digit (field s 11 2) \<and> s ! 13 = CHR '':''
      \<and> list_all is_digit (field s 14 2) \<and> s ! 16 = CHR '':''
      \<and> list_all is_digit (field s 17 2) \<and> s ! 19 = CHR ''Z'')"

definition strptime :: "string \<Rightarrow> error + datetime" where
  "strptime s =
     (if timestamp_layout s then
        (let y = digits_val (field s 0 4); m = digits_val (field s 5 2);
             d = digits_val (field s 8 2); hh = digits_val (field s 11 2);
             mm = digits_val (field s 14 2); ss = digits_val (field s 17 2)
         in if 1 \<le> m \<and> m \<le> 12 \<and> 1 \<le> d \<and> d \<le> 31 \<and> hh \<le> 23 \<and> mm \<le> 59 \<and> ss \<le> 61
            then datetime_new y m d hh mm ss
            else Inl ValueError)
      else Inl ValueError)"

text \<open>
  \<^verbatim>\<open>float(text)\<close> on the texts the second and third group capture: an optional sign,
  digits, a point, digits. The value is the binary64 value nearest to the decimal number
  written. A text of another form is outside this model and is given \<^verbatim>\<open>ValueError\<close>.
\<close>

definition unsigned_decimal :: "string \<Rightarrow> error + rat" where
  "unsigned_decimal s =
     (let ip = takeWhile is_digit s
      in case dropWhile is_digit s of
           [] \<Rightarrow> Inl ValueError
         | c # fp \<Rightarrow>
             if c = CHR ''.'' \<and> ip \<noteq> [] \<and> fp \<noteq> [] \<and> list_all is_digit fp
             then Inr (of_int (digits_val ip) + of_int (digits_val fp) / 10 ^ length fp)
             else Inl ValueError)"

definition float_of_str :: "string \<Rightarrow> error + py_float" where
  "float_of_str s =
     (case s of
        [] \<Rightarrow> Inl ValueError
      | c # cs \<Rightarrow>
          if c = CHR ''-'' then map_sum id (\<lambda>x. binary64 (- x)) (unsigned_decimal cs)
          else if c = CHR ''+'' then map_sum id binary64 (unsigned_decimal cs)
          else map_sum id binary64 (unsigned_decimal s))"

text \<open>
  What the program prints, as a list of events, one for each \<^verbatim>\<open>print\<close> of
  \<^verbatim>\<open>process_single_file\<close> and of the functions it calls: the segmenting of a file, an
  exception of ExifTool, an exception in a GPS record, the number of records, an
  exception while a tag of the start time is read (the tag and the text of the
  exception), the start time, an exception while a duration is read (the clip and the
  text of the exception), a discarded clip.
\<close>

datatype log_event =
    Segmenting string
  | RawGpsError string
  | GpsRecordError "string \<times> string \<times> string" error
  | ExtractedRecords string nat
  | StartTimeError string string
  | VideoStartTime string datetime
  | DurationError string string
  | DiscardingClip string py_float

text \<open>
  The body of the \<^verbatim>\<open>try\<close> in \<^verbatim>\<open>parse_gps_data\<close>: the first exception leaves it.
\<close>

definition try_record :: "string \<times> string \<times> string \<Rightarrow> error + gps_record" where
  "try_record m =
     (case m of (ts_str, lat_str, lon_str) \<Rightarrow>
        (case strptime ts_str of
           Inl e \<Rightarrow> Inl e
         | Inr dt \<Rightarrow>
             (case float_of_str lat_str of
                Inl e \<Rightarrow> Inl e
              | Inr lat \<Rightarrow>
                  (case float_of_str lon_str of
                     Inl e \<Rightarrow> Inl e
                   | Inr lon \<Rightarrow> Inr \<lparr>timestamp = dt, latitude = lat, longitude = lon\<rparr>))))"

text \<open>
  The \<^verbatim>\<open>for\<close> loop over the matches: a record is appended, or the exception is caught
  and printed and the loop goes on.
\<close>

fun gps_loop ::
  "(string \<times> string \<times> string) list \<Rightarrow> gps_record list \<Rightarrow> log_event list
     \<Rightarrow> gps_record list \<times> log_event list" where
  "gps_loop [] gps_records lg = (gps_records, lg)"
| "gps_loop (m # ms) gps_records lg =
     (case try_record m of
        Inr r \<Rightarrow> gps_loop ms (gps_records @ [r]) lg
      | Inl e \<Rightarrow> gps_loop ms gps_records (lg @ [GpsRecordError m e]))"

text \<open>The pattern has three groups, so \<^verbatim>\<open>findall\<close> gives triples.\<close>

definition as_triple :: "string list \<Rightarrow> string \<times> string \<times> string" where
  "as_triple g = (case g of [a, b, c] \<Rightarrow> (a, b, c) | _ \<Rightarrow> ([], [], []))"

definition gps_matches :: "string \<Rightarrow> (string \<times> string \<times> string) list" where
  "gps_matches raw_string = map as_triple (findall gps_pattern raw_string)"

text \<open>
  \<^verbatim>\<open>parse_gps_data\<close>, with what it prints. \<^verbatim>\<open>list.sort\<close> is stable; \<^const>\<open>sort_key\<close>
  is the stable sort of the library.
\<close>

definition parse_gps_data :: "string \<Rightarrow> gps_record list \<times> log_event list" where
  "parse_gps_data raw_string =
     (case gps_loop (gps_matches raw_string) [] [] of
        (gps_records, lg) \<Rightarrow> (sort_key timestamp gps_records, lg))"

section \<open>Clips and the association of GPS records\<close>

text \<open>
  The dictionary of a clip. The key \<^verbatim>\<open>gps_data\<close> is absent until
  \<^verbatim>\<open>associate_gps_with_clips\<close> sets it.
\<close>

record clip =
  source_file :: string
  clip_file :: string
  clip_index :: nat
  duration :: py_float
  pothole :: bool
  gps_data :: "gps_record list option"

text \<open>
  \<^verbatim>\<open>associate_gps_with_clips\<close>: the loop over \<^verbatim>\<open>enumerate(clips_info)\<close>, started at
  position \<open>i\<close>. An \<^verbatim>\<open>OverflowError\<close> of the date arithmetic leaves the function.
\<close>

fun associate_from ::
  "nat \<Rightarrow> clip list \<Rightarrow> gps_record list \<Rightarrow> datetime \<Rightarrow> int \<Rightarrow> error + clip list" where
  "associate_from i [] gps_records video_start segment_length = Inr []"
| "associate_from i (c # cs) gps_records video_start segment_length =
     (case add_seconds video_start (int i * segment_length) of
        Inl e \<Rightarrow> Inl e
      | Inr clip_start \<Rightarrow>
          (case add_seconds video_start ((int i + 1) * segment_length) of
             Inl e \<Rightarrow> Inl e
           | Inr clip_end \<Rightarrow>
               (let clip_gps =
                      filter (\<lambda>rec. clip_start \<le> timestamp rec \<and> timestamp rec < clip_end)
                        gps_records
                in case associate_from (Suc i) cs gps_records video_start segment_length of
                     Inl e \<Rightarrow> Inl e
                   | Inr cs' \<Rightarrow> Inr (c\<lparr>gps_data := Some clip_gps\<rparr> # cs'))))"

definition associate_gps_with_clips ::
  "clip list \<Rightarrow> gps_record list \<Rightarrow> datetime \<Rightarrow> int \<Rightarrow> error + clip list" where
  "associate_gps_with_clips clips_info gps_records video_start segment_length =
     associate_from 0 clips_info gps_records video_start segment_length"

text \<open>
  The functions around the external tools. What a tool does is an argument: what it
  returns, or \<open>Inl\<close> with the text of the exception its call raises.

  \<^verbatim>\<open>segment_video_single\<close> prints, runs FFmpeg and lists the clips; \<open>ffmpeg\<close> is the
  sorted list of clip files it returns. An exception leaves the function.
\<close>

definition segment_video_single ::
  "string \<Rightarrow> string + string list \<Rightarrow> log_event list \<times> (error + string list)" where
  "segment_video_single input_file ffmpeg =
     ([Segmenting input_file],
      case ffmpeg of Inl msg \<Rightarrow> Inl (ToolError msg) | Inr clips \<Rightarrow> Inr clips)"

text \<open>
  \<^verbatim>\<open>extract_raw_gps_data\<close>: the output of ExifTool, or the empty text after printing the
  exception.
\<close>

definition extract_raw_gps_data :: "string + string \<Rightarrow> log_event list \<times> string" where
  "extract_raw_gps_data exiftool =
     (case exiftool of Inl msg \<Rightarrow> ([RawGpsError msg], []) | Inr output \<Rightarrow> ([], output))"

text \<open>
  \<^verbatim>\<open>get_video_start_time\<close>. For each tag the body of the \<^verbatim>\<open>try\<close> has one of three
  outcomes: FFprobe fails or its output does not parse as a date and time, and the
  exception is printed; the output is empty, and nothing is printed; the output parses,
  and the datetime is returned at once. After both tags the result is \<open>None\<close>.
\<close>

datatype probe = ProbeRaises string | ProbeEmpty | ProbeTime datetime

fun probe_tags :: "(string \<Rightarrow> probe) \<Rightarrow> string list \<Rightarrow> log_event list \<times> datetime option" where
  "probe_tags ffprobe_tag [] = ([], None)"
| "probe_tags ffprobe_tag (tag # tags) =
     (case ffprobe_tag tag of
        ProbeTime dt \<Rightarrow> ([], Some dt)
      | ProbeEmpty \<Rightarrow> probe_tags ffprobe_tag tags
      | ProbeRaises msg \<Rightarrow>
          (case probe_tags ffprobe_tag tags of
             (lg, result) \<Rightarrow> (StartTimeError tag msg # lg, result)))"

definition get_video_start_time :: "(string \<Rightarrow> probe) \<Rightarrow> log_event list \<times> datetime option" where
  "get_video_start_time ffprobe_tag = probe_tags ffprobe_tag [''encoded_date'', ''creation_time'']"

text \<open>
  \<^verbatim>\<open>get_clip_duration\<close>: the duration FFprobe reports as a float, or 0.0 after printing the
  exception.
\<close>

definition get_clip_duration ::
  "(string \<Rightarrow> string + py_float) \<Rightarrow> string \<Rightarrow> log_event list \<times> py_float" where
  "get_clip_duration ffprobe_duration cf =
     (case ffprobe_duration cf of
        Inl msg \<Rightarrow> ([DurationError cf msg], Finite 0)
      | Inr d \<Rightarrow> ([], d))"

text \<open>
  The loop of \<^verbatim>\<open>process_single_file\<close> over \<^verbatim>\<open>enumerate(clip_files)\<close>, started at
  \<open>idx\<close>. The test \<^verbatim>\<open>abs(duration - segment_length) < 0.1\<close> is float arithmetic: the
  segment length is converted to a float, the difference is rounded, and 0.1 is the
  float nearest to one tenth. A clip that passes is kept with its index; any other is
  printed and its file removed, where \<open>os_remove\<close> gives the text of the exception if
  the removal raises.
\<close>

fun collect_clips ::
  "string \<Rightarrow> (string \<Rightarrow> string + py_float) \<Rightarrow> (string \<Rightarrow> string option) \<Rightarrow> int \<Rightarrow> nat
     \<Rightarrow> string list \<Rightarrow> log_event list \<times> (error + clip list)" where
  "collect_clips input_file ffprobe_duration os_remove segment_length idx [] = ([], Inr [])"
| "collect_clips input_file ffprobe_duration os_remove segment_length idx (cf # cfs) =
     (case get_clip_duration ffprobe_duration cf of
        (lg, d) \<Rightarrow>
          (case float_of_int segment_length of
             Inl e \<Rightarrow> (lg, Inl e)
           | Inr len \<Rightarrow>
               if float_less (float_abs (float_sub d len)) (binary64 (1 / 10))
               then
                 (case collect_clips input_file ffprobe_duration os_remove segment_length
                         (Suc idx) cfs of
                    (lg', Inl e) \<Rightarrow> (lg @ lg', Inl e)
                  | (lg', Inr file_clips) \<Rightarrow>
                      (lg @ lg',
                       Inr (\<lparr>source_file = input_file, clip_file = cf, clip_index = idx,
                              duration = d, pothole = False, gps_data = None\<rparr>
                            # file_clips)))
               else
                 (case os_remove cf of
                    Some msg \<Rightarrow> (lg @ [DiscardingClip cf d], Inl (ToolError msg))
                  | None \<Rightarrow>
                      (case collect_clips input_file ffprobe_duration os_remove segment_length
                              (Suc idx) cfs of
                         (lg', result) \<Rightarrow> (lg @ [DiscardingClip cf d] @ lg', result)))))"

text \<open>
  \<^verbatim>\<open>process_single_file\<close>, with the external tools as arguments: \<open>ffmpeg\<close> for
  \<^verbatim>\<open>segment_video_single\<close>, \<open>exiftool\<close> for \<^verbatim>\<open>extract_raw_gps_data\<close>, \<open>ffprobe_tag\<close>
  for \<^verbatim>\<open>get_video_start_time\<close>, \<open>ffprobe_duration\<close> for \<^verbatim>\<open>get_clip_duration\<close> and
  \<open>os_remove\<close> for the removal of a discarded clip. The result is what is printed, and
  the clips or the exception raised.
\<close>

definition process_single_file ::
  "string \<Rightarrow> string + string list \<Rightarrow> string + string \<Rightarrow> (string \<Rightarrow> probe)
     \<Rightarrow> (string \<Rightarrow> string + py_float) \<Rightarrow> (string \<Rightarrow> string option) \<Rightarrow> int
     \<Rightarrow> log_event list \<times> (error + clip list)" where
  "process_single_file input_file ffmpeg exiftool ffprobe_tag ffprobe_duration os_remove
       segment_length =
     (case segment_video_single input_file ffmpeg of
        (lg0, Inl e) \<Rightarrow> (lg0, Inl e)
      | (lg0, Inr clip_files) \<Rightarrow>
          (case extract_raw_gps_data exiftool of
             (lg1, raw_gps_data) \<Rightarrow>
               (case parse_gps_data raw_gps_data of
                  (gps_records, lg2) \<Rightarrow>
                    (case get_video_start_time ffprobe_tag of
                       (lg3, probed_start) \<Rightarrow>
                         (let lg = lg0 @ lg1 @ lg2
                                @ [ExtractedRecords input_file (length gps_records)] @ lg3;
                              video_start =
                                (case probed_start of
                                   Some t \<Rightarrow> Some t
                                 | None \<Rightarrow>
                                     (case gps_records of
                                        [] \<Rightarrow> None
                                      | r # _ \<Rightarrow> Some (timestamp r)))
                          in case video_start of
                               None \<Rightarrow> (lg, Inl ValueError)
                             | Some t0 \<Rightarrow>
                                 (case collect_clips input_file ffprobe_duration os_remove
                                         segment_length 0 clip_files of
                                    (lg4, Inl e) \<Rightarrow>
                                      (lg @ [VideoStartTime input_file t0] @ lg4, Inl e)
                                  | (lg4, Inr file_clips) \<Rightarrow>
                                      (lg @ [VideoStartTime input_file t0] @ lg4,
                                       associate_gps_with_clips file_clips gps_records t0
                                         segment_length)))))))"

section \<open>Notions of the specification\<close>

text \<open>
  The window of the clip at position \<open>i\<close> as the Clip Interval Builder defines it:
  it starts at \<open>t0 + i * L\<close> and ends, exclusively, at \<open>t0 + (i + 1) * L\<close>.
\<close>

definition window_start :: "datetime \<Rightarrow> int \<Rightarrow> nat \<Rightarrow> datetime" where
  "window_start t0 L i = t0 + int i * L"

definition window_end :: "datetime \<Rightarrow> int \<Rightarrow> nat \<Rightarrow> datetime" where
  "window_end t0 L i = t0 + (int i + 1) * L"

definition in_window :: "datetime \<Rightarrow> int \<Rightarrow> nat \<Rightarrow> gps_record \<Rightarrow> bool" where
  "in_window t0 L i r = (window_start t0 L i \<le> timestamp r \<and> timestamp r < window_end t0 L i)"

text \<open>The GPS list of a clip; empty while the key is absent.\<close>

definition gps_of :: "clip \<Rightarrow> gps_record list" where
  "gps_of c = (case gps_data c of None \<Rightarrow> [] | Some g \<Rightarrow> g)"

text \<open>
  The windows of \<open>n\<close> clips are datetimes when the video start and the end of the last
  window are: every boundary lies between the two.
\<close>

definition windows_representable :: "datetime \<Rightarrow> int \<Rightarrow> nat \<Rightarrow> bool" where
  "windows_representable t0 L n =
     (datetime_in_range t0 \<and> datetime_in_range (t0 + int n * L))"

text \<open>
  What an expression denotes: the texts it matches as a whole, each with the texts of its
  groups. The matcher is compared with it below.
\<close>

primrec denotes :: "regex \<Rightarrow> string \<Rightarrow> string list \<Rightarrow> bool" where
  "denotes (Atom a) w g = (g = [] \<and> length w = 1 \<and> list_all (accepts a) w)"
| "denotes (Rep a n) w g = (g = [] \<and> length w = n \<and> list_all (accepts a) w)"
| "denotes (Star a) w g = (g = [] \<and> list_all (accepts a) w)"
| "denotes (Plus a) w g = (g = [] \<and> w \<noteq> [] \<and> list_all (accepts a) w)"
| "denotes (Opt a) w g = (g = [] \<and> length w \<le> 1 \<and> list_all (accepts a) w)"
| "denotes (Seq r1 r2) w g =
     (\<exists>w1 w2 g1 g2. w = w1 @ w2 \<and> g = g1 @ g2 \<and> denotes r1 w1 g1 \<and> denotes r2 w2 g2)"
| "denotes (Group r) w g = (\<exists>g'. g = w # g' \<and> denotes r w g')"

text \<open>
  The form of a GPS entry as the pattern has it: the date and time in the layout
  \<^verbatim>\<open>YYYY:MM:DD HH:MM:SSZ\<close>, white space, a latitude, white space, a longitude. A
  decimal text has at least one digit before and after the point; the latitude may have
  a leading sign, the longitude must have one.
\<close>

definition is_sign :: "char \<Rightarrow> bool" where
  "is_sign c = (c = CHR ''+'' \<or> c = CHR ''-'')"

definition decimal_text :: "string \<Rightarrow> bool" where
  "decimal_text s =
     (case dropWhile is_digit s of
        [] \<Rightarrow> False
      | c # fp \<Rightarrow> c = CHR ''.'' \<and> takeWhile is_digit s \<noteq> [] \<and> fp \<noteq> [] \<and> list_all is_digit fp)"

definition latitude_text :: "string \<Rightarrow> bool" where
  "latitude_text s =
     (case s of [] \<Rightarrow> False | c # cs \<Rightarrow> if is_sign c then decimal_text cs else decimal_text s)"

definition longitude_text :: "string \<Rightarrow> bool" where
  "longitude_text s = (case s of [] \<Rightarrow> False | c # cs \<Rightarrow> is_sign c \<and> decimal_text cs)"

definition decimal_re :: regex where
  "decimal_re = seqs [Plus Digit, Atom (Lit CHR ''.''), Plus Digit]"

definition gps_text :: "string \<Rightarrow> string \<Rightarrow> string \<Rightarrow> string \<Rightarrow> string \<Rightarrow> bool" where
  "gps_text ts ws1 lat ws2 lon =
     (timestamp_layout ts \<and> list_all is_space ws1 \<and> latitude_text lat
      \<and> list_all is_space ws2 \<and> longitude_text lon)"

text \<open>
  The records and the errors of a list of matches, in the order of the matches: a match
  gives a record when the body of the \<^verbatim>\<open>try\<close> succeeds and an error event when it
  raises.
\<close>

definition parsed_records :: "(string \<times> string \<times> string) list \<Rightarrow> gps_record list" where
  "parsed_records ms =
     concat (map (\<lambda>m. case try_record m of Inr r \<Rightarrow> [r] | Inl e \<Rightarrow> []) ms)"

definition parse_errors :: "(string \<times> string \<times> string) list \<Rightarrow> log_event list" where
  "parse_errors ms =
     concat (map (\<lambda>m. case try_record m of Inr r \<Rightarrow> [] | Inl e \<Rightarrow> [GpsRecordError m e]) ms)"

text \<open>Values for the examples.\<close>

definition example_start :: datetime where
  "example_start = 63879058800"

definition example_clip :: "nat \<Rightarrow> clip" where
  "example_clip i =
     \<lparr>source_file = ''v.mp4'', clip_file = ''v_clip.mp4'', clip_index = i,
      duration = Finite 10, pothole = False, gps_data = None\<rparr>"

definition example_blob :: string where
  "example_blob = ''2025:02:30 23:00:35Z41.5-88.5 2025:03:31 23:00:35Z-41.5+88.5''"

definition example_files :: "string list" where
  "example_files = [''v_clip_000.mp4'', ''v_clip_001.mp4'', ''v_clip_002.mp4'']"

definition example_duration :: "string \<Rightarrow> string + py_float" where
  "example_duration f = (if f = ''v_clip_001.mp4'' then Inr (Finite 5) else Inr (Finite 10))"

definition example_remove :: "string \<Rightarrow> string option" where
  "example_remove f = None"

definition probe_at :: "datetime \<Rightarrow> string \<Rightarrow> probe" where
  "probe_at t tag = (if tag = ''encoded_date'' then ProbeTime t else ProbeEmpty)"

definition probe_empty :: "string \<Rightarrow> probe" where
  "probe_empty tag = ProbeEmpty"

definition probe_failing :: "string \<Rightarrow> probe" where
  "probe_failing tag =
     (if tag = ''encoded_date'' then ProbeRaises ''ffprobe failed'' else ProbeEmpty)"

definition example_gps_text :: string where
  "example_gps_text = ''2025:03:31 23:00:15Z41.5-88.5 2025:03:31 23:00:25Z41.6-88.6''"


definition example_record :: "datetime \<Rightarrow> gps_record" where
  "example_record t = \<lparr>timestamp = t, latitude = Finite 41.5, longitude = Finite (- 88.5)\<rparr>"

section \<open>The associator\<close>

lemma between_in_range:
  assumes "datetime_in_range t0" "datetime_in_range (t0 + int n * L)" "k \<le> n"
  shows "datetime_in_range (t0 + int k * L)"
proof (cases "0 \<le> L")
  case True
  have "int k * L \<le> int n * L" using assms(3) True by (simp add: mult_right_mono)
  moreover have "0 \<le> int k * L" using True by simp
  ultimately show ?thesis using assms(1,2) by (simp add: datetime_in_range_def)
next
  case False
  have "int n * L \<le> int k * L" using assms(3) False by (simp add: mult_right_mono_neg)
  moreover have "int k * L \<le> 0" using False by (simp add: mult_nonneg_nonpos)
  ultimately show ?thesis using assms(1,2) by (simp add: datetime_in_range_def)
qed

lemma in_window_fun:
  "in_window t0 L i = (\<lambda>r. t0 + int i * L \<le> timestamp r \<and> timestamp r < t0 + (int i + 1) * L)"
  by (rule ext) (simp add: in_window_def window_start_def window_end_def)

lemma associate_from_Inr:
  assumes "associate_from i cs recs t0 L = Inr out"
  shows "length out = length cs \<and>
         (\<forall>k<length cs. out ! k =
            (cs ! k)\<lparr>gps_data := Some (filter (in_window t0 L (i + k)) recs)\<rparr>)"
  using assms
proof (induction cs arbitrary: i out)
  case Nil
  then show ?case by simp
next
  case (Cons c cs)
  from Cons.prems obtain out' where
    tl: "associate_from (Suc i) cs recs t0 L = Inr out'" and
    out: "out = c\<lparr>gps_data := Some (filter (in_window t0 L i) recs)\<rparr> # out'"
    by (auto simp: add_seconds_def in_window_fun split: if_splits sum.splits)
  from Cons.IH[OF tl] have len: "length out' = length cs" and
    nth: "\<And>k. k < length cs \<Longrightarrow>
            out' ! k = (cs ! k)\<lparr>gps_data := Some (filter (in_window t0 L (Suc i + k)) recs)\<rparr>"
    by auto
  show ?case
  proof (intro conjI allI impI)
    show "length out = length (c # cs)" using out len by simp
  next
    fix k assume "k < length (c # cs)"
    then show "out ! k = ((c # cs) ! k)\<lparr>gps_data := Some (filter (in_window t0 L (i + k)) recs)\<rparr>"
      using out nth by (cases k) auto
  qed
qed

lemma associate_from_returns:
  assumes "\<forall>k\<le>length cs. datetime_in_range (t0 + int (i + k) * L)"
  shows "\<exists>out. associate_from i cs recs t0 L = Inr out"
  using assms
proof (induction cs arbitrary: i)
  case Nil
  then show ?case by simp
next
  case (Cons c cs)
  have a: "datetime_in_range (t0 + int i * L)" using Cons.prems[rule_format, of 0] by simp
  have b: "datetime_in_range (t0 + (int i + 1) * L)"
    using Cons.prems[rule_format, of 1] by (simp add: algebra_simps)
  have "\<forall>k\<le>length cs. datetime_in_range (t0 + int (Suc i + k) * L)"
  proof (intro allI impI)
    fix k assume "k \<le> length cs"
    then show "datetime_in_range (t0 + int (Suc i + k) * L)"
      using Cons.prems[rule_format, of "Suc k"] by simp
  qed
  from Cons.IH[OF this] obtain out' where "associate_from (Suc i) cs recs t0 L = Inr out'"
    by blast
  then show ?case using a b by (simp add: add_seconds_def)
qed

lemma associate_nth:
  assumes "windows_representable t0 L (length clips)"
  shows "\<exists>out. associate_gps_with_clips clips recs t0 L = Inr out \<and> length out = length clips
     \<and> (\<forall>k<length clips.
           out ! k = (clips ! k)\<lparr>gps_data := Some (filter (in_window t0 L k) recs)\<rparr>)"
proof -
  have "\<forall>k\<le>length clips. datetime_in_range (t0 + int (0 + k) * L)"
    using assms between_in_range[of t0 "length clips" L]
    by (auto simp add: windows_representable_def)
  from associate_from_returns[OF this] obtain out where
    out: "associate_from 0 clips recs t0 L = Inr out" by blast
  from associate_from_Inr[OF out] show ?thesis
    using out by (simp add: associate_gps_with_clips_def)
qed

lemma window_unique:
  assumes "in_window t0 L i r" "in_window t0 L j r"
  shows "i = j"
proof -
  have pos: "0 < L" using assms(1) by (simp add: in_window_def window_start_def window_end_def algebra_simps)
  have aux: "\<not> a < b" if "in_window t0 L a r" "in_window t0 L b r" for a b
  proof
    assume "a < b"
    then have "int a + 1 \<le> int b" by simp
    then have "(int a + 1) * L \<le> int b * L" using pos by (simp add: mult_right_mono)
    then show False using that by (simp add: in_window_def window_start_def window_end_def)
  qed
  from aux[OF assms] aux[OF assms(2,1)] show ?thesis by simp
qed

lemma gps_of_update [simp]: "gps_of (c\<lparr>gps_data := Some g\<rparr>) = g"
  by (simp add: gps_of_def)

text \<open>
  Claim C10. When the windows of the clips are datetimes, the associator returns a clip
  sequence of the length and in the order of its input, and every field of every clip
  other than \<^verbatim>\<open>gps_data\<close> (\<^verbatim>\<open>source_file\<close>, \<^verbatim>\<open>clip_file\<close>, \<^verbatim>\<open>clip_index\<close>,
  \<^verbatim>\<open>duration\<close>, \<^verbatim>\<open>pothole\<close>) is unchanged; only \<^verbatim>\<open>gps_data\<close> is set.
\<close>

theorem associate_frame:
  assumes "windows_representable video_start segment_length (length clips_info)"
  shows "\<exists>out. associate_gps_with_clips clips_info gps_records video_start segment_length = Inr out
           \<and> length out = length clips_info
           \<and> (\<forall>k<length clips_info.
                 source_file (out ! k) = source_file (clips_info ! k)
               \<and> clip_file (out ! k) = clip_file (clips_info ! k)
               \<and> clip_index (out ! k) = clip_index (clips_info ! k)
               \<and> duration (out ! k) = duration (clips_info ! k)
               \<and> pothole (out ! k) = pothole (clips_info ! k)
               \<and> gps_data (out ! k) \<noteq> None
               \<and> out ! k = (clips_info ! k)\<lparr>gps_data := gps_data (out ! k)\<rparr>)"
proof -
  from associate_nth[OF assms, of gps_records] obtain out where
    out: "associate_gps_with_clips clips_info gps_records video_start segment_length = Inr out"
    and len: "length out = length clips_info"
    and nth: "\<And>k. k < length clips_info \<Longrightarrow> out ! k =
       (clips_info ! k)\<lparr>gps_data := Some (filter (in_window video_start segment_length k) gps_records)\<rparr>"
    by blast
  show ?thesis
  proof (intro exI conjI allI impI)
    show "associate_gps_with_clips clips_info gps_records video_start segment_length = Inr out"
      by (rule out)
  qed (simp_all add: len nth)
qed

theorem associate_frame_witness:
  "windows_representable example_start 10 (length [example_clip 0, example_clip 1])
   \<and> (\<exists>out. associate_gps_with_clips [example_clip 0, example_clip 1]
               [example_record (example_start + 5)] example_start 10 = Inr out
           \<and> length out = length [example_clip 0, example_clip 1]
           \<and> (\<forall>k<length [example_clip 0, example_clip 1].
                 source_file (out ! k) = source_file ([example_clip 0, example_clip 1] ! k)
               \<and> clip_file (out ! k) = clip_file ([example_clip 0, example_clip 1] ! k)
               \<and> clip_index (out ! k) = clip_index ([example_clip 0, example_clip 1] ! k)
               \<and> duration (out ! k) = duration ([example_clip 0, example_clip 1] ! k)
               \<and> pothole (out ! k) = pothole ([example_clip 0, example_clip 1] ! k)
               \<and> gps_data (out ! k) \<noteq> None
               \<and> out ! k = ([example_clip 0, example_clip 1] ! k)\<lparr>gps_data := gps_data (out ! k)\<rparr>))"
proof -
  have h: "windows_representable example_start 10 (length [example_clip 0, example_clip 1])"
    by (simp add: windows_representable_def datetime_in_range_def max_ordinal_def
          example_start_def)
  from h associate_frame[OF h] show ?thesis by (rule conjI)
qed

text \<open>
  Claim C9. For a GPS record sequence sorted by timestamp, the \<^verbatim>\<open>gps_data\<close> the
  associator attaches to each clip keeps the relative order of the input records (it is
  a subsequence of the input) and so is itself non-decreasing by timestamp.
\<close>

theorem associate_preserves_order:
  assumes "sorted (map timestamp gps_records)"
    and "windows_representable video_start segment_length (length clips_info)"
  shows "\<exists>out. associate_gps_with_clips clips_info gps_records video_start segment_length = Inr out
           \<and> (\<forall>k<length clips_info.
                 subseq (gps_of (out ! k)) gps_records
               \<and> sorted (map timestamp (gps_of (out ! k))))"
proof -
  from associate_nth[OF assms(2), of gps_records] obtain out where
    out: "associate_gps_with_clips clips_info gps_records video_start segment_length = Inr out"
    and nth: "\<And>k. k < length clips_info \<Longrightarrow> out ! k =
       (clips_info ! k)\<lparr>gps_data := Some (filter (in_window video_start segment_length k) gps_records)\<rparr>"
    by blast
  show ?thesis
  proof (intro exI conjI allI impI)
    show "associate_gps_with_clips clips_info gps_records video_start segment_length = Inr out"
      by (rule out)
  next
    fix k assume "k < length clips_info"
    then show "subseq (gps_of (out ! k)) gps_records" by (simp add: nth)
  next
    fix k assume "k < length clips_info"
    then show "sorted (map timestamp (gps_of (out ! k)))"
      using assms(1) by (simp add: nth sorted_filter)
  qed
qed

theorem associate_preserves_order_witness:
  "sorted (map timestamp [example_record (example_start + 5), example_record (example_start + 7)])
   \<and> windows_representable example_start 10 (length [example_clip 0, example_clip 1])
   \<and> (\<exists>out. associate_gps_with_clips [example_clip 0, example_clip 1]
               [example_record (example_start + 5), example_record (example_start + 7)]
               example_start 10 = Inr out
           \<and> (\<forall>k<length [example_clip 0, example_clip 1].
                 subseq (gps_of (out ! k))
                   [example_record (example_start + 5), example_record (example_start + 7)]
               \<and> sorted (map timestamp (gps_of (out ! k)))))"
proof -
  have s: "sorted (map timestamp
             [example_record (example_start + 5), example_record (example_start + 7)])"
    by (simp add: example_record_def)
  have h: "windows_representable example_start 10 (length [example_clip 0, example_clip 1])"
    by (simp add: windows_representable_def datetime_in_range_def max_ordinal_def
          example_start_def)
  from s h associate_preserves_order[OF s h] show ?thesis by (intro conjI)
qed

text \<open>
  Claim C4. With a positive segment length and windows that are datetimes, a record
  whose timestamp is exactly the end of window \<open>i\<close> is not assigned to clip \<open>i\<close>; it is
  assigned to clip \<open>i + 1\<close> when there is one and to no clip otherwise. A record whose
  timestamp is exactly the start of window \<open>i\<close> is assigned to clip \<open>i\<close>. Membership
  is \<open>start \<le> timestamp < end\<close>: the windows are half-open and right-exclusive.
\<close>

theorem boundary_assignment:
  assumes "0 < segment_length"
    and "windows_representable video_start segment_length (length clips_info)"
  shows "\<exists>out. associate_gps_with_clips clips_info gps_records video_start segment_length = Inr out
           \<and> (\<forall>i<length clips_info. \<forall>r\<in>set gps_records.
                 (timestamp r = window_end video_start segment_length i \<longrightarrow>
                      r \<notin> set (gps_of (out ! i))
                    \<and> (Suc i < length clips_info \<longrightarrow> r \<in> set (gps_of (out ! Suc i)))
                    \<and> (Suc i = length clips_info \<longrightarrow>
                         (\<forall>k<length clips_info. r \<notin> set (gps_of (out ! k)))))
               \<and> (timestamp r = window_start video_start segment_length i \<longrightarrow>
                      r \<in> set (gps_of (out ! i)))
               \<and> (r \<in> set (gps_of (out ! i)) \<longleftrightarrow>
                      window_start video_start segment_length i \<le> timestamp r
                    \<and> timestamp r < window_end video_start segment_length i))"
proof -
  from associate_nth[OF assms(2), of gps_records] obtain out where
    out: "associate_gps_with_clips clips_info gps_records video_start segment_length = Inr out"
    and nth: "\<And>k. k < length clips_info \<Longrightarrow> out ! k =
       (clips_info ! k)\<lparr>gps_data := Some (filter (in_window video_start segment_length k) gps_records)\<rparr>"
    by blast
  have mem: "r \<in> set (gps_of (out ! k)) \<longleftrightarrow>
               r \<in> set gps_records \<and> in_window video_start segment_length k r"
    if "k < length clips_info" for k r
    using that by (simp add: nth)
  have "\<forall>i<length clips_info. \<forall>r\<in>set gps_records.
                 (timestamp r = window_end video_start segment_length i \<longrightarrow>
                      r \<notin> set (gps_of (out ! i))
                    \<and> (Suc i < length clips_info \<longrightarrow> r \<in> set (gps_of (out ! Suc i)))
                    \<and> (Suc i = length clips_info \<longrightarrow>
                         (\<forall>k<length clips_info. r \<notin> set (gps_of (out ! k)))))
               \<and> (timestamp r = window_start video_start segment_length i \<longrightarrow>
                      r \<in> set (gps_of (out ! i)))
               \<and> (r \<in> set (gps_of (out ! i)) \<longleftrightarrow>
                      window_start video_start segment_length i \<le> timestamp r
                    \<and> timestamp r < window_end video_start segment_length i)"
  proof (intro allI impI ballI conjI)
    fix i r assume i: "i < length clips_info" and r: "r \<in> set gps_records"
      and e: "timestamp r = window_end video_start segment_length i"
    show "r \<notin> set (gps_of (out ! i))"
      using i e by (simp add: mem in_window_def)
    { assume "Suc i < length clips_info"
      then show "r \<in> set (gps_of (out ! Suc i))"
        using r e assms(1)
        by (simp add: mem in_window_def window_start_def window_end_def algebra_simps) }
    { fix k assume last: "Suc i = length clips_info" and k: "k < length clips_info"
      have "int k + 1 \<le> int i + 1" using last k by simp
      then have "(int k + 1) * segment_length \<le> (int i + 1) * segment_length"
        using assms(1) by (simp only: mult_right_mono less_imp_le)
      then show "r \<notin> set (gps_of (out ! k))"
        using k e by (simp add: mem in_window_def window_start_def window_end_def) }
  next
    fix i r assume i: "i < length clips_info" and r: "r \<in> set gps_records"
      and e: "timestamp r = window_start video_start segment_length i"
    show "r \<in> set (gps_of (out ! i))"
      using i r e assms(1)
      by (simp add: mem in_window_def window_start_def window_end_def algebra_simps)
  next
    fix i r assume i: "i < length clips_info" and r: "r \<in> set gps_records"
    show "r \<in> set (gps_of (out ! i)) \<longleftrightarrow>
            window_start video_start segment_length i \<le> timestamp r
          \<and> timestamp r < window_end video_start segment_length i"
      using i r by (simp add: mem in_window_def)
  qed
  with out show ?thesis by blast
qed


theorem boundary_assignment_witness:
  "0 < (10::int)
   \<and> windows_representable example_start 10 (length [example_clip 0, example_clip 1])
   \<and> (\<exists>out. associate_gps_with_clips [example_clip 0, example_clip 1]
               [example_record (example_start + 10), example_record (example_start + 20)]
               example_start 10 = Inr out
           \<and> example_record (example_start + 10) \<notin> set (gps_of (out ! 0))
           \<and> example_record (example_start + 10) \<in> set (gps_of (out ! 1))
           \<and> example_record (example_start + 20) \<notin> set (gps_of (out ! 0))
           \<and> example_record (example_start + 20) \<notin> set (gps_of (out ! 1)))"
proof -
  let ?cs = "[example_clip 0, example_clip 1]"
  let ?rs = "[example_record (example_start + 10), example_record (example_start + 20)]"
  have p: "0 < (10::int)" by simp
  have h: "windows_representable example_start 10 (length ?cs)"
    by (simp add: windows_representable_def datetime_in_range_def max_ordinal_def
          example_start_def)
  from boundary_assignment[OF p h, of ?rs] obtain out where
    out: "associate_gps_with_clips ?cs ?rs example_start 10 = Inr out" and
    b: "\<And>i r. i < length ?cs \<Longrightarrow> r \<in> set ?rs \<Longrightarrow>
          (timestamp r = window_end example_start 10 i \<longrightarrow>
               r \<notin> set (gps_of (out ! i))
             \<and> (Suc i < length ?cs \<longrightarrow> r \<in> set (gps_of (out ! Suc i)))
             \<and> (Suc i = length ?cs \<longrightarrow> (\<forall>k<length ?cs. r \<notin> set (gps_of (out ! k)))))"
    by blast
  have e0: "timestamp (example_record (example_start + 10)) = window_end example_start 10 0"
    by (simp add: example_record_def window_end_def)
  have e1: "timestamp (example_record (example_start + 20)) = window_end example_start 10 1"
    by (simp add: example_record_def window_end_def)
  from b[of 0 "example_record (example_start + 10)"] e0
  have a: "example_record (example_start + 10) \<notin> set (gps_of (out ! 0))"
    "example_record (example_start + 10) \<in> set (gps_of (out ! 1))"
    by simp_all
  from b[of 1 "example_record (example_start + 20)"] e1
  have "\<forall>k<length ?cs. example_record (example_start + 20) \<notin> set (gps_of (out ! k))"
    by simp
  then have c: "example_record (example_start + 20) \<notin> set (gps_of (out ! 0))"
    "example_record (example_start + 20) \<notin> set (gps_of (out ! 1))"
    by simp_all
  from p h out a c show ?thesis by blast
qed

lemma count_concat_filters:
  assumes "\<And>i j. i < n \<Longrightarrow> j < n \<Longrightarrow> P i r \<Longrightarrow> P j r \<Longrightarrow> i = j"
  shows "count (mset (concat (map (\<lambda>k. filter (P k) xs) [0..<n]))) r =
         (if \<exists>i<n. P i r then count (mset xs) r else 0)"
  using assms
proof (induction n)
  case 0
  then show ?case by simp
next
  case (Suc n)
  have ih: "count (mset (concat (map (\<lambda>k. filter (P k) xs) [0..<n]))) r =
         (if \<exists>i<n. P i r then count (mset xs) r else 0)"
    using Suc.prems by (intro Suc.IH) auto
  show ?case
  proof (cases "P n r")
    case True
    have no: "\<not> (\<exists>i<n. P i r)"
    proof
      assume "\<exists>i<n. P i r"
      then obtain i where i: "i < n" "P i r" by blast
      from Suc.prems[of i n] i True show False by simp
    qed
    have yes: "\<exists>i<Suc n. P i r" using True by blast
    show ?thesis using ih True no yes by simp
  next
    case False
    then have "(\<exists>i<Suc n. P i r) \<longleftrightarrow> (\<exists>i<n. P i r)" using less_Suc_eq by auto
    then show ?thesis using ih False by simp
  qed
qed

text \<open>
  Claim C5. When the windows of the clips are datetimes, every record whose timestamp
  lies inside the window of some clip appears in the GPS list of exactly one clip, and
  every record outside all windows appears in none; the lists hold input records only,
  and together they hold the records inside some window, each as often as the input
  does. At most one window contains a given timestamp.
\<close>

theorem association_partition:
  assumes "windows_representable video_start segment_length (length clips_info)"
  shows "\<exists>out. associate_gps_with_clips clips_info gps_records video_start segment_length = Inr out
           \<and> (\<forall>r\<in>set gps_records.
                 ((\<exists>i<length clips_info. in_window video_start segment_length i r) \<longrightarrow>
                    (\<exists>!i. i < length clips_info \<and> r \<in> set (gps_of (out ! i))))
               \<and> ((\<forall>i<length clips_info. \<not> in_window video_start segment_length i r) \<longrightarrow>
                    (\<forall>i<length clips_info. r \<notin> set (gps_of (out ! i)))))
           \<and> (\<forall>i<length clips_info. set (gps_of (out ! i)) \<subseteq> set gps_records)
           \<and> mset (concat (map gps_of out)) =
               filter_mset (\<lambda>r. \<exists>i<length clips_info. in_window video_start segment_length i r)
                 (mset gps_records)
           \<and> (\<forall>r i j. in_window video_start segment_length i r
                       \<and> in_window video_start segment_length j r \<longrightarrow> i = j)"
proof -
  let ?n = "length clips_info"
  let ?W = "in_window video_start segment_length"
  from associate_nth[OF assms, of gps_records] obtain out where
    out: "associate_gps_with_clips clips_info gps_records video_start segment_length = Inr out"
    and len: "length out = ?n"
    and nth: "\<And>k. k < ?n \<Longrightarrow> out ! k =
       (clips_info ! k)\<lparr>gps_data := Some (filter (?W k) gps_records)\<rparr>"
    by blast
  have mem: "r \<in> set (gps_of (out ! k)) \<longleftrightarrow> r \<in> set gps_records \<and> ?W k r"
    if "k < ?n" for k r
    using that by (simp add: nth)
  have uniq: "\<forall>r i j. ?W i r \<and> ?W j r \<longrightarrow> i = j"
    using window_unique by blast
  have part: "\<forall>r\<in>set gps_records.
                 ((\<exists>i<?n. ?W i r) \<longrightarrow> (\<exists>!i. i < ?n \<and> r \<in> set (gps_of (out ! i))))
               \<and> ((\<forall>i<?n. \<not> ?W i r) \<longrightarrow> (\<forall>i<?n. r \<notin> set (gps_of (out ! i))))"
  proof (intro ballI conjI impI)
    fix r assume r: "r \<in> set gps_records" and "\<exists>i<?n. ?W i r"
    then obtain i where i: "i < ?n" "?W i r" by blast
    show "\<exists>!i. i < ?n \<and> r \<in> set (gps_of (out ! i))"
    proof (rule ex1I[of _ i])
      show "i < ?n \<and> r \<in> set (gps_of (out ! i))" using i r by (simp add: mem)
    next
      fix j assume "j < ?n \<and> r \<in> set (gps_of (out ! j))"
      then have "?W j r" using mem[of j r] by blast
      with i(2) show "j = i" using window_unique by blast
    qed
  next
    fix r assume "r \<in> set gps_records" and "\<forall>i<?n. \<not> ?W i r"
    then show "\<forall>i<?n. r \<notin> set (gps_of (out ! i))" by (simp add: mem)
  qed
  have sub: "\<forall>i<?n. set (gps_of (out ! i)) \<subseteq> set gps_records"
    using mem by blast
  have "map gps_of out = map (\<lambda>k. filter (?W k) gps_records) [0..<?n]"
    by (rule nth_equalityI) (simp_all add: len nth)
  then have "mset (concat (map gps_of out)) =
      mset (concat (map (\<lambda>k. filter (?W k) gps_records) [0..<?n]))"
    by simp
  also have "\<dots> = filter_mset (\<lambda>r. \<exists>i<?n. ?W i r) (mset gps_records)"
  proof (rule multiset_eqI)
    fix r
    show "count (mset (concat (map (\<lambda>k. filter (?W k) gps_records) [0..<?n]))) r =
          count (filter_mset (\<lambda>r. \<exists>i<?n. ?W i r) (mset gps_records)) r"
      using count_concat_filters[of ?n ?W r gps_records] window_unique
      by (simp only: count_filter_mset)
  qed
  finally have ms: "mset (concat (map gps_of out)) =
      filter_mset (\<lambda>r. \<exists>i<?n. ?W i r) (mset gps_records)" .
  from out part sub ms uniq show ?thesis by blast
qed

theorem association_partition_witness:
  "windows_representable example_start 10 (length [example_clip 0, example_clip 1])
   \<and> (\<exists>out. associate_gps_with_clips [example_clip 0, example_clip 1]
               [example_record (example_start + 5), example_record (example_start + 30)]
               example_start 10 = Inr out
           \<and> (\<exists>!i. i < length [example_clip 0, example_clip 1]
                    \<and> example_record (example_start + 5) \<in> set (gps_of (out ! i)))
           \<and> example_record (example_start + 30) \<notin> set (gps_of (out ! 0))
           \<and> example_record (example_start + 30) \<notin> set (gps_of (out ! 1)))"
proof -
  let ?cs = "[example_clip 0, example_clip 1]"
  let ?rs = "[example_record (example_start + 5), example_record (example_start + 30)]"
  have h: "windows_representable example_start 10 (length ?cs)"
    by (simp add: windows_representable_def datetime_in_range_def max_ordinal_def
          example_start_def)
  from association_partition[OF h, of ?rs] obtain out where
    out: "associate_gps_with_clips ?cs ?rs example_start 10 = Inr out" and
    p0: "\<forall>r\<in>set ?rs.
          ((\<exists>i<length ?cs. in_window example_start 10 i r) \<longrightarrow>
             (\<exists>!i. i < length ?cs \<and> r \<in> set (gps_of (out ! i))))
        \<and> ((\<forall>i<length ?cs. \<not> in_window example_start 10 i r) \<longrightarrow>
             (\<forall>i<length ?cs. r \<notin> set (gps_of (out ! i))))"
    by (elim exE conjE) (rule that)
  have p: "((\<exists>i<length ?cs. in_window example_start 10 i r) \<longrightarrow>
             (\<exists>!i. i < length ?cs \<and> r \<in> set (gps_of (out ! i))))
        \<and> ((\<forall>i<length ?cs. \<not> in_window example_start 10 i r) \<longrightarrow>
             (\<forall>i<length ?cs. r \<notin> set (gps_of (out ! i))))"
    if "r \<in> set ?rs" for r
    using p0 that by (rule bspec)
  have "in_window example_start 10 0 (example_record (example_start + 5))"
    by (simp add: in_window_def window_start_def window_end_def example_record_def)
  then have "\<exists>i<length ?cs. in_window example_start 10 i (example_record (example_start + 5))"
    by auto
  with p[of "example_record (example_start + 5)"]
  have a: "\<exists>!i. i < length ?cs \<and> example_record (example_start + 5) \<in> set (gps_of (out ! i))"
    by simp
  have "\<forall>i<length ?cs. \<not> in_window example_start 10 i (example_record (example_start + 30))"
    by (simp add: in_window_def window_start_def window_end_def example_record_def
          less_Suc_eq)
  with p[of "example_record (example_start + 30)"]
  have "\<forall>i<length ?cs. example_record (example_start + 30) \<notin> set (gps_of (out ! i))"
    by simp
  then have b: "example_record (example_start + 30) \<notin> set (gps_of (out ! 0))"
    "example_record (example_start + 30) \<notin> set (gps_of (out ! 1))"
    by simp_all
  from h out a b show ?thesis by blast
qed

section \<open>The metadata parser is total, sorted and stable\<close>

lemma gps_loop_eq:
  "gps_loop ms gps_records lg = (gps_records @ parsed_records ms, lg @ parse_errors ms)"
  by (induction ms arbitrary: gps_records lg)
     (auto simp: parsed_records_def parse_errors_def split: sum.splits)

lemma parse_gps_data_eq:
  "parse_gps_data raw_string =
     (sort_key timestamp (parsed_records (gps_matches raw_string)),
      parse_errors (gps_matches raw_string))"
  by (simp add: parse_gps_data_def gps_loop_eq)

lemma length_parsed:
  "length (parsed_records ms) + length (parse_errors ms) = length ms"
  by (induction ms) (auto simp: parsed_records_def parse_errors_def split: sum.splits)

text \<open>
  Claim C6. For every text, the records the parser returns are sorted non-decreasing
  by timestamp, and the records of one timestamp stand in the order in which their
  matches were met in the text: the sort is stable and loses no record.
\<close>

theorem parser_sorted_stable:
  "sorted (map timestamp (fst (parse_gps_data raw_string)))
   \<and> (\<forall>t. filter (\<lambda>r. timestamp r = t) (fst (parse_gps_data raw_string)) =
           filter (\<lambda>r. timestamp r = t) (parsed_records (gps_matches raw_string)))
   \<and> mset (fst (parse_gps_data raw_string)) = mset (parsed_records (gps_matches raw_string))"
  by (simp add: parse_gps_data_eq sort_key_stable)

text \<open>
  Claim C7. For every text, the parser returns: its records are the sorted records of the
  matches whose conversion succeeds, its log holds one error event for each match whose
  conversion raises, in the order of the matches, and each match is one or the other. A
  match that fails drops that record only: every other match that converts is in the
  result.
\<close>

theorem parser_skips_malformed:
  "fst (parse_gps_data raw_string) = sort_key timestamp (parsed_records (gps_matches raw_string))
   \<and> snd (parse_gps_data raw_string) = parse_errors (gps_matches raw_string)
   \<and> length (fst (parse_gps_data raw_string)) + length (snd (parse_gps_data raw_string)) =
       length (gps_matches raw_string)
   \<and> (\<forall>m\<in>set (gps_matches raw_string).
         (\<forall>r. try_record m = Inr r \<longrightarrow> r \<in> set (fst (parse_gps_data raw_string)))
       \<and> (\<forall>e. try_record m = Inl e \<longrightarrow>
              GpsRecordError m e \<in> set (snd (parse_gps_data raw_string))))"
proof -
  have "\<forall>m\<in>set (gps_matches raw_string).
         (\<forall>r. try_record m = Inr r \<longrightarrow> r \<in> set (parsed_records (gps_matches raw_string)))
       \<and> (\<forall>e. try_record m = Inl e \<longrightarrow>
              GpsRecordError m e \<in> set (parse_errors (gps_matches raw_string)))"
    by (auto simp: parsed_records_def parse_errors_def intro!: bexI)
  then show ?thesis
    by (simp add: parse_gps_data_eq length_parsed)
qed

theorem parser_skips_malformed_witness:
  "gps_matches example_blob =
     [(''2025:02:30 23:00:35Z'', ''41.5'', ''-88.5''),
      (''2025:03:31 23:00:35Z'', ''-41.5'', ''+88.5'')]
   \<and> try_record (''2025:02:30 23:00:35Z'', ''41.5'', ''-88.5'') = Inl ValueError
   \<and> GpsRecordError (''2025:02:30 23:00:35Z'', ''41.5'', ''-88.5'') ValueError
         \<in> set (snd (parse_gps_data example_blob))
   \<and> try_record (''2025:03:31 23:00:35Z'', ''-41.5'', ''+88.5'') =
         Inr \<lparr>timestamp = 63879058835, latitude = Finite (- 41.5), longitude = Finite 88.5\<rparr>
   \<and> \<lparr>timestamp = 63879058835, latitude = Finite (- 41.5), longitude = Finite 88.5\<rparr>
         \<in> set (fst (parse_gps_data example_blob))"
proof -
  have gm: "gps_matches example_blob =
     [(''2025:02:30 23:00:35Z'', ''41.5'', ''-88.5''),
      (''2025:03:31 23:00:35Z'', ''-41.5'', ''+88.5'')]"
    by code_simp
  have t1: "try_record (''2025:02:30 23:00:35Z'', ''41.5'', ''-88.5'') = Inl ValueError"
    by code_simp
  have t2: "try_record (''2025:03:31 23:00:35Z'', ''-41.5'', ''+88.5'') =
         Inr \<lparr>timestamp = 63879058835, latitude = Finite (- 41.5), longitude = Finite 88.5\<rparr>"
    by code_simp
  from parser_skips_malformed[of example_blob] have
    "\<forall>m\<in>set (gps_matches example_blob).
         (\<forall>r. try_record m = Inr r \<longrightarrow> r \<in> set (fst (parse_gps_data example_blob)))
       \<and> (\<forall>e. try_record m = Inl e \<longrightarrow>
              GpsRecordError m e \<in> set (snd (parse_gps_data example_blob)))"
    by blast
  with gm t1 t2 show ?thesis by simp
qed



section \<open>Processing one file\<close>

text \<open>
  Claim C1 says that the window of a clip is \<open>[t0 + i * L, t0 + (i + 1) * L)\<close> for the
  clip's own \<^verbatim>\<open>clip_index\<close> \<open>i\<close>, also after clips in between were discarded. The
  code takes the position of the clip in the list that is left. Here the second of three
  clips lasts 5 seconds and is discarded: the clip with \<^verbatim>\<open>clip_index\<close> 2 is given the
  record of second 15, which lies in the window of index 1 and not in its own, and the
  record of second 25, which lies in its own window, is given to no clip.
\<close>

theorem window_ignores_clip_index:
  "snd (process_single_file ''v.mp4'' (Inr example_files) (Inr example_gps_text)
          (probe_at example_start) example_duration example_remove 10) =
     Inr [\<lparr>source_file = ''v.mp4'', clip_file = ''v_clip_000.mp4'', clip_index = 0,
            duration = Finite 10, pothole = False, gps_data = Some []\<rparr>,
          \<lparr>source_file = ''v.mp4'', clip_file = ''v_clip_002.mp4'', clip_index = 2,
            duration = Finite 10, pothole = False,
            gps_data = Some [\<lparr>timestamp = example_start + 15, latitude = Finite 41.5,
                               longitude = Finite (- 88.5)\<rparr>]\<rparr>]
   \<and> \<not> in_window example_start 10 2
         \<lparr>timestamp = example_start + 15, latitude = Finite 41.5,
            longitude = Finite (- 88.5)\<rparr>
   \<and> in_window example_start 10 2
         \<lparr>timestamp = example_start + 25, latitude = binary64 41.6,
            longitude = binary64 (- 88.6)\<rparr>
   \<and> fst (parse_gps_data example_gps_text) =
       [\<lparr>timestamp = example_start + 15, latitude = Finite 41.5,
          longitude = Finite (- 88.5)\<rparr>,
        \<lparr>timestamp = example_start + 25, latitude = binary64 41.6,
          longitude = binary64 (- 88.6)\<rparr>]
   \<and> datetime_new 2025 3 31 23 0 0 = Inr example_start"
  by code_simp

lemma sorted_hd_le:
  assumes "sorted (map f (x # xs))" "y \<in> set (x # xs)"
  shows "f x \<le> f y"
  using assms by auto

text \<open>
  Claim C3, as the code has it. When the start time cannot be extracted and there are
  GPS records, the timestamp of the first record is taken as the start time, and it is
  the earliest of all records; the clips returned, or the exception raised, are those of
  any run in which that timestamp is extracted as the start time, so nothing in the
  result tells the fallback. When there is no GPS record either and the segmenting
  returned, \<^verbatim>\<open>ValueError\<close> is raised to the caller.
\<close>

theorem start_time_fallback:
  assumes "snd (get_video_start_time ffprobe_tag) = None"
  shows "(\<forall>r rs. fst (parse_gps_data (snd (extract_raw_gps_data exiftool))) = r # rs \<longrightarrow>
            (\<forall>ffprobe_tag'. snd (get_video_start_time ffprobe_tag') = Some (timestamp r) \<longrightarrow>
               snd (process_single_file input_file ffmpeg exiftool ffprobe_tag
                      ffprobe_duration os_remove segment_length) =
               snd (process_single_file input_file ffmpeg exiftool ffprobe_tag'
                      ffprobe_duration os_remove segment_length))
          \<and> (\<forall>r'\<in>set (r # rs). timestamp r \<le> timestamp r'))
       \<and> (fst (parse_gps_data (snd (extract_raw_gps_data exiftool))) = [] \<longrightarrow>
            (\<forall>clip_files. ffmpeg = Inr clip_files \<longrightarrow>
               snd (process_single_file input_file ffmpeg exiftool ffprobe_tag
                      ffprobe_duration os_remove segment_length) = Inl ValueError))"
proof -
  obtain lg1 raw where ex: "extract_raw_gps_data exiftool = (lg1, raw)"
    by (cases "extract_raw_gps_data exiftool")
  obtain recs lg2 where pa: "parse_gps_data raw = (recs, lg2)"
    by (cases "parse_gps_data raw")
  obtain lg3 where gv: "get_video_start_time ffprobe_tag = (lg3, None)"
    using assms by (cases "get_video_start_time ffprobe_tag") simp
  have sorted: "sorted (map timestamp recs)"
    using parse_gps_data_eq[of raw] pa by simp
  show ?thesis
  proof (intro conjI allI impI)
    fix r rs ffprobe_tag'
    assume a: "fst (parse_gps_data (snd (extract_raw_gps_data exiftool))) = r # rs"
      and b: "snd (get_video_start_time ffprobe_tag') = Some (timestamp r)"
    from a have recs: "recs = r # rs" using ex pa by simp
    obtain lg3' where gv': "get_video_start_time ffprobe_tag' = (lg3', Some (timestamp r))"
      using b by (cases "get_video_start_time ffprobe_tag'") simp
    show "snd (process_single_file input_file ffmpeg exiftool ffprobe_tag
                      ffprobe_duration os_remove segment_length) =
          snd (process_single_file input_file ffmpeg exiftool ffprobe_tag'
                      ffprobe_duration os_remove segment_length)"
      by (simp add: process_single_file_def segment_video_single_def ex pa gv gv' recs
            split: sum.splits prod.splits)
  next
    fix r rs
    assume a: "fst (parse_gps_data (snd (extract_raw_gps_data exiftool))) = r # rs"
    from a have "recs = r # rs" using ex pa by simp
    then have "sorted (map timestamp (r # rs))" using sorted by simp
    then show "\<forall>r'\<in>set (r # rs). timestamp r \<le> timestamp r'"
      using sorted_hd_le[of timestamp r rs] by blast
  next
    fix clip_files
    assume a: "fst (parse_gps_data (snd (extract_raw_gps_data exiftool))) = []"
      and f: "ffmpeg = Inr clip_files"
    from a have "recs = []" using ex pa by simp
    then show "snd (process_single_file input_file ffmpeg exiftool ffprobe_tag
                      ffprobe_duration os_remove segment_length) = Inl ValueError"
      by (simp add: process_single_file_def segment_video_single_def ex pa gv f)
  qed
qed

theorem start_time_fallback_witness:
  "snd (get_video_start_time probe_failing) = None
   \<and> fst (parse_gps_data (snd (extract_raw_gps_data (Inr example_gps_text)))) =
       [example_record (example_start + 15),
        \<lparr>timestamp = example_start + 25, latitude = binary64 41.6,
          longitude = binary64 (- 88.6)\<rparr>]
   \<and> snd (get_video_start_time (probe_at (example_start + 15))) =
       Some (timestamp (example_record (example_start + 15)))
   \<and> snd (process_single_file ''v.mp4'' (Inr example_files) (Inr example_gps_text)
            probe_failing example_duration example_remove 10) =
     snd (process_single_file ''v.mp4'' (Inr example_files) (Inr example_gps_text)
            (probe_at (example_start + 15)) example_duration example_remove 10)
   \<and> fst (parse_gps_data (snd (extract_raw_gps_data (Inl ''exiftool failed'')))) = []
   \<and> snd (process_single_file ''v.mp4'' (Inr example_files) (Inl ''exiftool failed'')
            probe_failing example_duration example_remove 10) = Inl ValueError"
proof -
  have h: "snd (get_video_start_time probe_failing) = None"
    by code_simp
  have p: "fst (parse_gps_data (snd (extract_raw_gps_data (Inr example_gps_text)))) =
       [example_record (example_start + 15),
        \<lparr>timestamp = example_start + 25, latitude = binary64 41.6,
          longitude = binary64 (- 88.6)\<rparr>]"
    by code_simp
  have g: "snd (get_video_start_time (probe_at (example_start + 15))) =
       Some (timestamp (example_record (example_start + 15)))"
    by code_simp
  have e: "fst (parse_gps_data (snd (extract_raw_gps_data (Inl ''exiftool failed'')))) = []"
    by code_simp
  note t1 = start_time_fallback[OF h, where exiftool = "Inr example_gps_text"
      and input_file = "''v.mp4''" and ffmpeg = "Inr example_files"
      and ffprobe_duration = example_duration and os_remove = example_remove
      and segment_length = 10]
  note t2 = start_time_fallback[OF h, where exiftool = "Inl ''exiftool failed''"
      and input_file = "''v.mp4''" and ffmpeg = "Inr example_files"
      and ffprobe_duration = example_duration and os_remove = example_remove
      and segment_length = 10]
  from conjunct1[OF t1, rule_format, OF p] have
    "\<forall>ffprobe_tag'. snd (get_video_start_time ffprobe_tag') =
         Some (timestamp (example_record (example_start + 15))) \<longrightarrow>
       snd (process_single_file ''v.mp4'' (Inr example_files) (Inr example_gps_text)
              probe_failing example_duration example_remove 10) =
       snd (process_single_file ''v.mp4'' (Inr example_files) (Inr example_gps_text)
              ffprobe_tag' example_duration example_remove 10)"
    by (rule conjunct1)
  from this[rule_format, OF g] have q:
    "snd (process_single_file ''v.mp4'' (Inr example_files) (Inr example_gps_text)
            probe_failing example_duration example_remove 10) =
     snd (process_single_file ''v.mp4'' (Inr example_files) (Inr example_gps_text)
            (probe_at (example_start + 15)) example_duration example_remove 10)" .
  from conjunct2[OF t2, rule_format, OF e refl] have v:
    "snd (process_single_file ''v.mp4'' (Inr example_files) (Inl ''exiftool failed'')
            probe_failing example_duration example_remove 10) = Inl ValueError" .
  from h p g q e v show ?thesis by (intro conjI)
qed

text \<open>
  Claim C3 as stated asks that the fallback be flagged to downstream consumers. Here
  FFprobe gives no text for either tag, so the start time is not extracted: the run
  returns the same clips and prints the same events as the run where second 15 is
  extracted as the start time.
\<close>

theorem fallback_not_flagged:
  "snd (get_video_start_time probe_empty) = None
   \<and> process_single_file ''v.mp4'' (Inr example_files) (Inr example_gps_text) probe_empty
       example_duration example_remove 10 =
     process_single_file ''v.mp4'' (Inr example_files) (Inr example_gps_text)
       (probe_at (example_start + 15)) example_duration example_remove 10
   \<and> fst (process_single_file ''v.mp4'' (Inr example_files) (Inr example_gps_text)
            probe_empty example_duration example_remove 10) =
       [Segmenting ''v.mp4'', ExtractedRecords ''v.mp4'' 2,
        VideoStartTime ''v.mp4'' (example_start + 15),
        DiscardingClip ''v_clip_001.mp4'' (Finite 5)]"
  by code_simp

section \<open>What the pattern matches\<close>

text \<open>The matcher finds exactly what the expression denotes, before any rest of the text.\<close>

lemma set_greedy:
  "s' \<in> set (greedy a s) \<longleftrightarrow> (\<exists>w. s = w @ s' \<and> list_all (accepts a) w)"
proof (induction s)
  case Nil
  then show ?case by auto
next
  case (Cons c cs)
  show ?case
  proof (cases "accepts a c")
    case True
    have "(\<exists>w. c # cs = w @ s' \<and> list_all (accepts a) w) \<longleftrightarrow>
          (s' = c # cs \<or> (\<exists>w. cs = w @ s' \<and> list_all (accepts a) w))"
      using True by (auto simp: Cons_eq_append_conv)
    then show ?thesis using True Cons.IH by auto
  next
    case False
    have "(\<exists>w. c # cs = w @ s' \<and> list_all (accepts a) w) \<longleftrightarrow> s' = c # cs"
      using False by (auto simp: Cons_eq_append_conv)
    then show ?thesis using False by simp
  qed
qed

lemma in_concat_map_iff:
  "y \<in> set (concat (map f xs)) \<longleftrightarrow> (\<exists>x\<in>set xs. y \<in> set (f x))"
  by auto

lemma set_mtch_Seq:
  "(g, s') \<in> set (mtch (Seq r1 r2) s) \<longleftrightarrow>
     (\<exists>g1 s1 g2. (g1, s1) \<in> set (mtch r1 s) \<and> (g2, s') \<in> set (mtch r2 s1) \<and> g = g1 @ g2)"
proof -
  have inner: "(g, s') \<in> set (map (\<lambda>(g2, s2). (g1 @ g2, s2)) (mtch r2 s1)) \<longleftrightarrow>
        (\<exists>g2. (g2, s') \<in> set (mtch r2 s1) \<and> g = g1 @ g2)" for g1 s1
    by (simp add: image_iff split_beta Bex_def)
  have "(g, s') \<in> set (mtch (Seq r1 r2) s) \<longleftrightarrow>
        (\<exists>p\<in>set (mtch r1 s).
           (g, s') \<in> set (map (\<lambda>(g2, s2). (fst p @ g2, s2)) (mtch r2 (snd p))))"
    by (simp only: mtch.simps in_concat_map_iff split_beta)
  also have "\<dots> \<longleftrightarrow> (\<exists>p\<in>set (mtch r1 s). \<exists>g2. (g2, s') \<in> set (mtch r2 (snd p)) \<and> g = fst p @ g2)"
    by (simp only: inner)
  also have "\<dots> \<longleftrightarrow>
     (\<exists>g1 s1 g2. (g1, s1) \<in> set (mtch r1 s) \<and> (g2, s') \<in> set (mtch r2 s1) \<and> g = g1 @ g2)"
    by (simp add: Bex_def)
  finally show ?thesis .
qed

lemma set_mtch_Group:
  "(g, s') \<in> set (mtch (Group r) s) \<longleftrightarrow>
     (\<exists>g'. (g', s') \<in> set (mtch r s) \<and> g = take (length s - length s') s # g')"
  by (simp add: image_iff split_beta Bex_def)

lemma mtch_denotes:
  "(g, s') \<in> set (mtch r s) \<longleftrightarrow> (\<exists>w. s = w @ s' \<and> denotes r w g)"
proof (induction r arbitrary: g s s')
  case (Atom a)
  show ?case
    by (cases s) (auto simp: length_Suc_conv)
next
  case (Rep a n)
  show ?case
  proof
    assume "(g, s') \<in> set (mtch (Rep a n) s)"
    then have "g = []" "n \<le> length s" "list_all (accepts a) (take n s)" "s' = drop n s"
      by (auto split: if_splits)
    then have "s = take n s @ s' \<and> denotes (Rep a n) (take n s) g" by simp
    then show "\<exists>w. s = w @ s' \<and> denotes (Rep a n) w g" by blast
  next
    assume "\<exists>w. s = w @ s' \<and> denotes (Rep a n) w g"
    then show "(g, s') \<in> set (mtch (Rep a n) s)" by auto
  qed
next
  case (Star a)
  show ?case by (auto simp: set_greedy)
next
  case (Plus a)
  show ?case
  proof (cases s)
    case Nil
    then show ?thesis by auto
  next
    case (Cons c cs)
    show ?thesis
    proof
      assume "(g, s') \<in> set (mtch (Plus a) s)"
      then have c: "accepts a c" and g: "g = []" and "s' \<in> set (greedy a cs)"
        using Cons by (auto split: if_splits)
      then obtain w where "cs = w @ s'" "list_all (accepts a) w"
        by (auto simp: set_greedy)
      then have "s = (c # w) @ s' \<and> denotes (Plus a) (c # w) g"
        using Cons c g by simp
      then show "\<exists>w. s = w @ s' \<and> denotes (Plus a) w g" by blast
    next
      assume "\<exists>w. s = w @ s' \<and> denotes (Plus a) w g"
      then obtain w where w: "s = w @ s'" "g = []" "w \<noteq> []" "list_all (accepts a) w"
        by auto
      then obtain w' where "w = c # w'" using Cons by (cases w) auto
      then show "(g, s') \<in> set (mtch (Plus a) s)"
        using w Cons by (auto simp: set_greedy)
    qed
  qed
next
  case (Opt a)
  show ?case
  proof (cases s)
    case Nil
    then show ?thesis by auto
  next
    case (Cons c cs)
    have "(\<exists>w. s = w @ s' \<and> denotes (Opt a) w g) \<longleftrightarrow>
          g = [] \<and> (s' = s \<or> (accepts a c \<and> s' = cs))"
    proof
      assume "\<exists>w. s = w @ s' \<and> denotes (Opt a) w g"
      then obtain w where w: "s = w @ s'" "g = []" "length w \<le> 1" "list_all (accepts a) w"
        by auto
      then show "g = [] \<and> (s' = s \<or> (accepts a c \<and> s' = cs))"
        using Cons by (cases w) auto
    next
      assume a: "g = [] \<and> (s' = s \<or> (accepts a c \<and> s' = cs))"
      then consider "s' = s" | "accepts a c" "s' = cs" by blast
      then show "\<exists>w. s = w @ s' \<and> denotes (Opt a) w g"
      proof cases
        case 1
        then have "s = [] @ s' \<and> denotes (Opt a) [] g" using a by simp
        then show ?thesis by blast
      next
        case 2
        then have "s = [c] @ s' \<and> denotes (Opt a) [c] g" using a Cons by simp
        then show ?thesis by blast
      qed
    qed
    then show ?thesis using Cons by auto
  qed
next
  case (Seq r1 r2)
  show ?case
  proof
    assume "(g, s') \<in> set (mtch (Seq r1 r2) s)"
    then have "\<exists>g1 s1 g2. (g1, s1) \<in> set (mtch r1 s) \<and> (g2, s') \<in> set (mtch r2 s1) \<and> g = g1 @ g2"
      by (rule iffD1[OF set_mtch_Seq])
    then obtain g1 s1 g2 where m1: "(g1, s1) \<in> set (mtch r1 s)"
      and m2: "(g2, s') \<in> set (mtch r2 s1)" and g: "g = g1 @ g2"
      by (elim exE conjE)
    from iffD1[OF Seq.IH(1) m1] obtain w1 where w1: "s = w1 @ s1" "denotes r1 w1 g1"
      by (elim exE conjE)
    from iffD1[OF Seq.IH(2) m2] obtain w2 where w2: "s1 = w2 @ s'" "denotes r2 w2 g2"
      by (elim exE conjE)
    have "denotes (Seq r1 r2) (w1 @ w2) g"
      unfolding denotes.simps using g w1(2) w2(2) by (intro exI conjI) (rule refl)
    moreover have "s = (w1 @ w2) @ s'" using w1(1) w2(1) by simp
    ultimately show "\<exists>w. s = w @ s' \<and> denotes (Seq r1 r2) w g"
      by (intro exI conjI)
  next
    assume "\<exists>w. s = w @ s' \<and> denotes (Seq r1 r2) w g"
    then obtain w where sw: "s = w @ s'" and d: "denotes (Seq r1 r2) w g"
      by (elim exE conjE)
    from d obtain w1 w2 g1 g2 where w: "w = w1 @ w2" and g: "g = g1 @ g2"
      and d1: "denotes r1 w1 g1" and d2: "denotes r2 w2 g2"
      unfolding denotes.simps by (elim exE conjE)
    have "\<exists>v. s = v @ (w2 @ s') \<and> denotes r1 v g1"
      using sw w d1 by (intro exI[of _ w1]) simp
    then have m1: "(g1, w2 @ s') \<in> set (mtch r1 s)"
      by (rule iffD2[OF Seq.IH(1)])
    have "\<exists>v. w2 @ s' = v @ s' \<and> denotes r2 v g2"
      using d2 by (intro exI[of _ w2]) simp
    then have m2: "(g2, s') \<in> set (mtch r2 (w2 @ s'))"
      by (rule iffD2[OF Seq.IH(2)])
    show "(g, s') \<in> set (mtch (Seq r1 r2) s)"
      using m1 m2 g by (intro iffD2[OF set_mtch_Seq] exI conjI)
  qed
next
  case (Group r)
  show ?case
  proof
    assume "(g, s') \<in> set (mtch (Group r) s)"
    then have "\<exists>g'. (g', s') \<in> set (mtch r s) \<and> g = take (length s - length s') s # g'"
      by (rule iffD1[OF set_mtch_Group])
    then obtain g' where m: "(g', s') \<in> set (mtch r s)"
      and g: "g = take (length s - length s') s # g'"
      by (elim exE conjE)
    from iffD1[OF Group.IH m] obtain w where w: "s = w @ s'" "denotes r w g'"
      by (elim exE conjE)
    have "take (length s - length s') s = w" using w(1) by simp
    then have "denotes (Group r) w g" using g w(2) by simp
    with w(1) show "\<exists>w. s = w @ s' \<and> denotes (Group r) w g"
      by (intro exI conjI)
  next
    assume "\<exists>w. s = w @ s' \<and> denotes (Group r) w g"
    then obtain w where sw: "s = w @ s'" and d: "denotes (Group r) w g"
      by (elim exE conjE)
    from d obtain g' where g: "g = w # g'" and d': "denotes r w g'"
      unfolding denotes.simps by (elim exE conjE)
    have "\<exists>v. s = v @ s' \<and> denotes r v g'" using sw d' by (intro exI[of _ w]) simp
    then have m: "(g', s') \<in> set (mtch r s)" by (rule iffD2[OF Group.IH])
    have "take (length s - length s') s = w" using sw by simp
    then have "g = take (length s - length s') s # g'" using g by simp
    with m show "(g, s') \<in> set (mtch (Group r) s)"
      by (intro iffD2[OF set_mtch_Group] exI conjI)
  qed
qed

lemma not_digit_point [simp]: "\<not> is_digit CHR ''.''"
  by (simp add: is_digit_def)

lemma not_sign_digit: "is_digit c \<Longrightarrow> \<not> is_sign c"
  by (auto simp: is_digit_def is_sign_def)

lemma decimal_text_iff:
  "decimal_text s \<longleftrightarrow>
     (\<exists>ip fp. s = ip @ CHR ''.'' # fp \<and> ip \<noteq> [] \<and> list_all is_digit ip
              \<and> fp \<noteq> [] \<and> list_all is_digit fp)"
proof
  assume d: "decimal_text s"
  then obtain c fp where dw: "dropWhile is_digit s = c # fp"
    by (auto simp: decimal_text_def split: list.splits)
  with d have c: "c = CHR ''.''" and ne: "takeWhile is_digit s \<noteq> []" "fp \<noteq> []"
    and fp: "list_all is_digit fp"
    by (auto simp: decimal_text_def)
  have "s = takeWhile is_digit s @ CHR ''.'' # fp"
    using takeWhile_dropWhile_id[of is_digit s] dw c by simp
  moreover have "list_all is_digit (takeWhile is_digit s)"
    by (simp add: list_all_iff) (meson set_takeWhileD)
  ultimately show "\<exists>ip fp. s = ip @ CHR ''.'' # fp \<and> ip \<noteq> [] \<and> list_all is_digit ip
              \<and> fp \<noteq> [] \<and> list_all is_digit fp"
    using ne fp by blast
next
  assume "\<exists>ip fp. s = ip @ CHR ''.'' # fp \<and> ip \<noteq> [] \<and> list_all is_digit ip
              \<and> fp \<noteq> [] \<and> list_all is_digit fp"
  then obtain ip fp where s: "s = ip @ CHR ''.'' # fp" and ip: "ip \<noteq> []" "list_all is_digit ip"
    and fp: "fp \<noteq> []" "list_all is_digit fp"
    by blast
  have tw: "takeWhile is_digit s = ip"
    using s ip(2) by (simp add: takeWhile_append2 list_all_iff)
  have dw: "dropWhile is_digit s = CHR ''.'' # fp"
    using s ip(2) by (simp add: dropWhile_append2 list_all_iff)
  show "decimal_text s"
    using tw dw ip fp by (simp add: decimal_text_def)
qed

lemma denotes_decimal_re:
  "denotes decimal_re w g \<longleftrightarrow> g = [] \<and> decimal_text w"
proof -
  have "denotes decimal_re w g \<longleftrightarrow>
     g = [] \<and> (\<exists>ip fp. w = ip @ CHR ''.'' # fp \<and> ip \<noteq> [] \<and> list_all is_digit ip
              \<and> fp \<noteq> [] \<and> list_all is_digit fp)"
  proof
    assume "denotes decimal_re w g"
    then obtain w1 w2 w3 where "w = w1 @ w2 @ w3" "g = []" "w1 \<noteq> []" "list_all is_digit w1"
      "length w2 = 1" "list_all (\<lambda>c. c = CHR ''.'') w2" "w3 \<noteq> []" "list_all is_digit w3"
      by (auto simp: decimal_re_def list_all_iff)
    moreover from this have "w2 = [CHR ''.'']" by (cases w2) auto
    ultimately show "g = [] \<and> (\<exists>ip fp. w = ip @ CHR ''.'' # fp \<and> ip \<noteq> [] \<and> list_all is_digit ip
              \<and> fp \<noteq> [] \<and> list_all is_digit fp)"
      by auto
  next
    assume "g = [] \<and> (\<exists>ip fp. w = ip @ CHR ''.'' # fp \<and> ip \<noteq> [] \<and> list_all is_digit ip
              \<and> fp \<noteq> [] \<and> list_all is_digit fp)"
    then obtain ip fp where g: "g = []" and w: "w = ip @ [CHR ''.''] @ fp" and
      p: "ip \<noteq> []" "list_all is_digit ip" "fp \<noteq> []" "list_all is_digit fp"
      by auto
    have d1: "denotes (Plus Digit) ip []" using p by (simp add: list_all_iff)
    have d2: "denotes (Atom (Lit CHR ''.'')) [CHR ''.''] []" by simp
    have d3: "denotes (Plus Digit) fp []" using p by (simp add: list_all_iff)
    have "denotes (Seq (Atom (Lit CHR ''.'')) (Plus Digit)) ([CHR ''.''] @ fp) ([] @ [])"
      using d2 d3 unfolding denotes.simps(6) by blast
    then have "denotes (Seq (Plus Digit) (Seq (Atom (Lit CHR ''.'')) (Plus Digit)))
                 (ip @ [CHR ''.''] @ fp) ([] @ [] @ [])"
      using d1 unfolding denotes.simps(6) by blast
    then show "denotes decimal_re w g"
      using g w by (simp add: decimal_re_def)
  qed
  then show ?thesis by (simp add: decimal_text_iff)
qed


lemma decimal_text_hd:
  assumes "decimal_text s"
  shows "\<exists>c cs. s = c # cs \<and> is_digit c"
proof -
  from assms obtain ip fp where "s = ip @ CHR ''.'' # fp" "ip \<noteq> []" "list_all is_digit ip"
    unfolding decimal_text_iff by blast
  then show ?thesis by (cases ip) auto
qed

lemma accepts_sign [simp]: "accepts (OneOf ''+-'') = is_sign"
  by (rule ext) (auto simp: is_sign_def)

lemma latitude_re_eq: "latitude_re = Seq (Opt (OneOf ''+-'')) decimal_re"
  by (simp add: latitude_re_def decimal_re_def)

lemma longitude_re_eq: "longitude_re = Seq (Atom (OneOf ''+-'')) decimal_re"
  by (simp add: longitude_re_def decimal_re_def)

lemma denotes_longitude_re:
  "denotes longitude_re w g \<longleftrightarrow> g = [] \<and> longitude_text w"
proof
  assume "denotes longitude_re w g"
  then obtain w1 w2 where "w = w1 @ w2" "g = []" "length w1 = 1" "list_all is_sign w1"
    "decimal_text w2"
    unfolding longitude_re_eq by (auto simp: denotes_decimal_re)
  moreover from this obtain c where "w1 = [c]" "is_sign c" by (cases w1) auto
  ultimately show "g = [] \<and> longitude_text w" by (simp add: longitude_text_def)
next
  assume a: "g = [] \<and> longitude_text w"
  then obtain c cs where w: "w = [c] @ cs" and c: "is_sign c" and d: "decimal_text cs"
    by (auto simp: longitude_text_def split: list.splits)
  have "denotes (Atom (OneOf ''+-'')) [c] []" using c by simp
  moreover have "denotes decimal_re cs []" using d by (simp add: denotes_decimal_re)
  ultimately have "denotes (Seq (Atom (OneOf ''+-'')) decimal_re) ([c] @ cs) ([] @ [])"
    unfolding denotes.simps(6) by blast
  then show "denotes longitude_re w g" using a w by (simp add: longitude_re_eq)
qed

lemma denotes_latitude_re:
  "denotes latitude_re w g \<longleftrightarrow> g = [] \<and> latitude_text w"
proof
  assume "denotes latitude_re w g"
  then obtain w1 w2 where w: "w = w1 @ w2" and g: "g = []" and l: "length w1 \<le> 1"
    and s: "list_all is_sign w1" and d: "decimal_text w2"
    unfolding latitude_re_eq by (auto simp: denotes_decimal_re)
  show "g = [] \<and> latitude_text w"
  proof (cases w1)
    case Nil
    from decimal_text_hd[OF d] obtain c cs where "w2 = c # cs" "is_digit c" by blast
    then show ?thesis using Nil w g d by (simp add: latitude_text_def not_sign_digit)
  next
    case (Cons c cs)
    then have "cs = []" using l by simp
    then show ?thesis using Cons w g d s by (simp add: latitude_text_def)
  qed
next
  assume a: "g = [] \<and> latitude_text w"
  then obtain c cs where w: "w = c # cs" by (auto simp: latitude_text_def split: list.splits)
  show "denotes latitude_re w g"
  proof (cases "is_sign c")
    case True
    then have "decimal_text cs" using a w by (simp add: latitude_text_def)
    then have "denotes decimal_re cs []" by (simp add: denotes_decimal_re)
    moreover have "denotes (Opt (OneOf ''+-'')) [c] []" using True by simp
    ultimately have "denotes (Seq (Opt (OneOf ''+-'')) decimal_re) ([c] @ cs) ([] @ [])"
      unfolding denotes.simps(6) by blast
    then show ?thesis using a w by (simp add: latitude_re_eq)
  next
    case False
    then have "decimal_text w" using a w by (simp add: latitude_text_def)
    then have "denotes decimal_re w []" by (simp add: denotes_decimal_re)
    moreover have "denotes (Opt (OneOf ''+-'')) [] []" by simp
    ultimately have "denotes (Seq (Opt (OneOf ''+-'')) decimal_re) ([] @ w) ([] @ [])"
      unfolding denotes.simps(6) by blast
    then show ?thesis using a by (simp add: latitude_re_eq)
  qed
qed

lemma denotes_Seq_Rep:
  "denotes (Seq (Rep a n) r) w g \<longleftrightarrow>
     n \<le> length w \<and> list_all (accepts a) (take n w) \<and> denotes r (drop n w) g"
proof
  assume "denotes (Seq (Rep a n) r) w g"
  then obtain w1 w2 where "w = w1 @ w2" "length w1 = n" "list_all (accepts a) w1" "denotes r w2 g"
    by auto
  then show "n \<le> length w \<and> list_all (accepts a) (take n w) \<and> denotes r (drop n w) g"
    by simp
next
  assume a: "n \<le> length w \<and> list_all (accepts a) (take n w) \<and> denotes r (drop n w) g"
  then have "denotes (Rep a n) (take n w) []" by simp
  moreover have "denotes r (drop n w) g" using a by simp
  ultimately have "denotes (Seq (Rep a n) r) (take n w @ drop n w) ([] @ g)"
    unfolding denotes.simps(6) by blast
  then show "denotes (Seq (Rep a n) r) w g" by simp
qed

lemma denotes_Seq_Lit:
  "denotes (Seq (Atom (Lit c)) r) w g \<longleftrightarrow>
     0 < length w \<and> w ! 0 = c \<and> denotes r (drop 1 w) g"
proof
  assume "denotes (Seq (Atom (Lit c)) r) w g"
  then obtain w1 w2 where "w = w1 @ w2" "length w1 = 1" "list_all (\<lambda>x. x = c) w1" "denotes r w2 g"
    by (auto simp: list_all_iff)
  moreover from this have "w1 = [c]" by (cases w1) auto
  ultimately show "0 < length w \<and> w ! 0 = c \<and> denotes r (drop 1 w) g"
    by simp
next
  assume a: "0 < length w \<and> w ! 0 = c \<and> denotes r (drop 1 w) g"
  then obtain w' where w: "w = c # w'" by (cases w) auto
  have "denotes (Atom (Lit c)) [c] []" by simp
  moreover have "denotes r w' g" using a w by simp
  ultimately have "denotes (Seq (Atom (Lit c)) r) ([c] @ w') ([] @ g)"
    unfolding denotes.simps(6) by blast
  then show "denotes (Seq (Atom (Lit c)) r) w g" using w by simp
qed

lemma denotes_Lit:
  "denotes (Atom (Lit c)) w g \<longleftrightarrow> g = [] \<and> length w = 1 \<and> w ! 0 = c"
  by (cases w) auto

lemma denotes_timestamp_re:
  "denotes timestamp_re w g \<longleftrightarrow> g = [] \<and> timestamp_layout w"
  unfolding timestamp_re_def seqs.simps denotes_Seq_Rep denotes_Seq_Lit denotes_Lit
    timestamp_layout_def field_def
  by (auto simp: accepts.simps[abs_def])

lemma accepts_Space [simp]: "accepts Space = is_space"
  by (rule ext) simp

lemma denotes_SeqE:
  assumes "denotes (Seq r1 r2) w g"
  obtains w1 w2 g1 g2 where "w = w1 @ w2" "g = g1 @ g2" "denotes r1 w1 g1" "denotes r2 w2 g2"
  using assms by auto

lemma denotes_SeqI:
  "denotes r1 w1 g1 \<Longrightarrow> denotes r2 w2 g2 \<Longrightarrow> denotes (Seq r1 r2) (w1 @ w2) (g1 @ g2)"
  by auto

lemma denotes_gps_pattern:
  "denotes gps_pattern w g \<longleftrightarrow>
     (\<exists>ts ws1 lat ws2 lon. w = ts @ ws1 @ lat @ ws2 @ lon \<and> g = [ts, lat, lon]
        \<and> gps_text ts ws1 lat ws2 lon)"
proof
  assume "denotes gps_pattern w g"
  then have "denotes (Seq (Group timestamp_re) (Seq (Star Space) (Seq (Group latitude_re)
                   (Seq (Star Space) (Group longitude_re))))) w g"
    by (simp add: gps_pattern_def)
  then obtain ts r1 g1 gr1 where a1: "w = ts @ r1" "g = g1 @ gr1"
    "denotes (Group timestamp_re) ts g1"
    "denotes (Seq (Star Space) (Seq (Group latitude_re) (Seq (Star Space) (Group longitude_re)))) r1 gr1"
    by (rule denotes_SeqE)
  from a1(4) obtain ws1 r2 g2 gr2 where a2: "r1 = ws1 @ r2" "gr1 = g2 @ gr2"
    "denotes (Star Space) ws1 g2"
    "denotes (Seq (Group latitude_re) (Seq (Star Space) (Group longitude_re))) r2 gr2"
    by (rule denotes_SeqE)
  from a2(4) obtain lat r3 g3 gr3 where a3: "r2 = lat @ r3" "gr2 = g3 @ gr3"
    "denotes (Group latitude_re) lat g3"
    "denotes (Seq (Star Space) (Group longitude_re)) r3 gr3"
    by (rule denotes_SeqE)
  from a3(4) obtain ws2 lon g4 g5 where a4: "r3 = ws2 @ lon" "gr3 = g4 @ g5"
    "denotes (Star Space) ws2 g4" "denotes (Group longitude_re) lon g5"
    by (rule denotes_SeqE)
  have t: "g1 = [ts]" "timestamp_layout ts" using a1(3) by (auto simp: denotes_timestamp_re)
  have s1: "g2 = []" "list_all is_space ws1" using a2(3) by auto
  have l: "g3 = [lat]" "latitude_text lat" using a3(3) by (auto simp: denotes_latitude_re)
  have s2: "g4 = []" "list_all is_space ws2" using a4(3) by auto
  have o: "g5 = [lon]" "longitude_text lon" using a4(4) by (auto simp: denotes_longitude_re)
  have "w = ts @ ws1 @ lat @ ws2 @ lon" using a1(1) a2(1) a3(1) a4(1) by simp
  moreover have "g = [ts, lat, lon]" using a1(2) a2(2) a3(2) a4(2) t s1 l s2 o by simp
  moreover have "gps_text ts ws1 lat ws2 lon" using t s1 l s2 o by (simp add: gps_text_def)
  ultimately show "\<exists>ts ws1 lat ws2 lon. w = ts @ ws1 @ lat @ ws2 @ lon \<and> g = [ts, lat, lon]
        \<and> gps_text ts ws1 lat ws2 lon"
    by blast
next
  assume "\<exists>ts ws1 lat ws2 lon. w = ts @ ws1 @ lat @ ws2 @ lon \<and> g = [ts, lat, lon]
        \<and> gps_text ts ws1 lat ws2 lon"
  then obtain ts ws1 lat ws2 lon where w: "w = ts @ ws1 @ lat @ ws2 @ lon"
    and g: "g = [ts, lat, lon]" and f: "gps_text ts ws1 lat ws2 lon"
    by blast
  have d5: "denotes (Group longitude_re) lon [lon]"
    using f by (simp add: gps_text_def denotes_longitude_re)
  have d4: "denotes (Star Space) ws2 []" using f by (simp add: gps_text_def)
  have d3: "denotes (Group latitude_re) lat [lat]"
    using f by (simp add: gps_text_def denotes_latitude_re)
  have d2: "denotes (Star Space) ws1 []" using f by (simp add: gps_text_def)
  have d1: "denotes (Group timestamp_re) ts [ts]"
    using f by (simp add: gps_text_def denotes_timestamp_re)
  have e4: "denotes (Seq (Star Space) (Group longitude_re)) (ws2 @ lon) ([] @ [lon])"
    using d4 d5 by (rule denotes_SeqI)
  have e3: "denotes (Seq (Group latitude_re) (Seq (Star Space) (Group longitude_re)))
              (lat @ ws2 @ lon) ([lat] @ [] @ [lon])"
    using d3 e4 by (rule denotes_SeqI)
  have e2: "denotes (Seq (Star Space) (Seq (Group latitude_re) (Seq (Star Space) (Group longitude_re))))
              (ws1 @ lat @ ws2 @ lon) ([] @ [lat] @ [] @ [lon])"
    using d2 e3 by (rule denotes_SeqI)
  have "denotes (Seq (Group timestamp_re) (Seq (Star Space) (Seq (Group latitude_re)
                   (Seq (Star Space) (Group longitude_re)))))
              (ts @ ws1 @ lat @ ws2 @ lon) ([ts] @ [] @ [lat] @ [] @ [lon])"
    using d1 e2 by (rule denotes_SeqI)
  then show "denotes gps_pattern w g"
    using w g by (simp add: gps_pattern_def)
qed

lemma mtch_gps_pattern:
  "(g, s') \<in> set (mtch gps_pattern s) \<longleftrightarrow>
     (\<exists>ts ws1 lat ws2 lon. s = ts @ ws1 @ lat @ ws2 @ lon @ s' \<and> g = [ts, lat, lon]
        \<and> gps_text ts ws1 lat ws2 lon)"
proof -
  have "(g, s') \<in> set (mtch gps_pattern s) \<longleftrightarrow> (\<exists>w. s = w @ s' \<and> denotes gps_pattern w g)"
    by (rule mtch_denotes)
  also have "\<dots> \<longleftrightarrow> (\<exists>ts ws1 lat ws2 lon. s = ts @ ws1 @ lat @ ws2 @ lon @ s' \<and> g = [ts, lat, lon]
        \<and> gps_text ts ws1 lat ws2 lon)"
  proof
    assume "\<exists>w. s = w @ s' \<and> denotes gps_pattern w g"
    then obtain ts ws1 lat ws2 lon where "s = (ts @ ws1 @ lat @ ws2 @ lon) @ s'"
      "g = [ts, lat, lon]" "gps_text ts ws1 lat ws2 lon"
      unfolding denotes_gps_pattern by (elim exE conjE) simp
    then show "\<exists>ts ws1 lat ws2 lon. s = ts @ ws1 @ lat @ ws2 @ lon @ s' \<and> g = [ts, lat, lon]
        \<and> gps_text ts ws1 lat ws2 lon"
      by (intro exI[of _ ts] exI[of _ ws1] exI[of _ lat] exI[of _ ws2] exI[of _ lon]) simp
  next
    assume "\<exists>ts ws1 lat ws2 lon. s = ts @ ws1 @ lat @ ws2 @ lon @ s' \<and> g = [ts, lat, lon]
        \<and> gps_text ts ws1 lat ws2 lon"
    then obtain ts ws1 lat ws2 lon where a: "s = ts @ ws1 @ lat @ ws2 @ lon @ s'"
      "g = [ts, lat, lon]" "gps_text ts ws1 lat ws2 lon"
      by (elim exE conjE)
    then have "denotes gps_pattern (ts @ ws1 @ lat @ ws2 @ lon) g"
      unfolding denotes_gps_pattern by (intro exI conjI) (rule refl)
    moreover have "s = (ts @ ws1 @ lat @ ws2 @ lon) @ s'" using a(1) by simp
    ultimately show "\<exists>w. s = w @ s' \<and> denotes gps_pattern w g"
      by (intro exI conjI)
  qed
  finally show ?thesis .
qed

text \<open>Every match of \<^const>\<open>findall\<close> is a match of the expression somewhere in the text.\<close>

lemma findall_sound:
  "g \<in> set (findall r s) \<Longrightarrow> \<exists>pre s1 s'. s = pre @ s1 \<and> (g, s') \<in> set (mtch r s1)"
proof (induction r s rule: findall.induct)
  case (1 r s)
  show ?case
  proof (cases "mtch r s")
    case Nil
    show ?thesis
    proof (cases s)
      case Nil
      with \<open>mtch r s = []\<close> "1.prems" show ?thesis by (simp add: findall.simps[of r "[]"])
    next
      case (Cons c cs)
      with \<open>mtch r s = []\<close> "1.prems" have "g \<in> set (findall r cs)"
        by (simp add: findall.simps[of r "c # cs"])
      from "1.IH"(1)[OF \<open>mtch r s = []\<close> Cons this]
      obtain pre s1 s' where "cs = pre @ s1" "(g, s') \<in> set (mtch r s1)" by blast
      then have "s = (c # pre) @ s1 \<and> (g, s') \<in> set (mtch r s1)" using Cons by simp
      then show ?thesis by blast
    qed
  next
    case (Cons m ms)
    obtain g0 s0 where m: "m = (g0, s0)" by (cases m)
    have here: "\<exists>pre s1 s'. s = pre @ s1 \<and> (g0, s') \<in> set (mtch r s1)"
    proof -
      have "s = [] @ s \<and> (g0, s0) \<in> set (mtch r s)" using Cons m by simp
      then show ?thesis by blast
    qed
    show ?thesis
    proof (cases "length s0 < length s")
      case True
      with Cons m "1.prems" have "g = g0 \<or> g \<in> set (findall r s0)"
        by (simp add: findall.simps[of r s])
      then show ?thesis
      proof
        assume "g = g0" with here show ?thesis by simp
      next
        assume "g \<in> set (findall r s0)"
        from "1.IH"(2)[OF Cons m[symmetric] True this]
        obtain pre s1 s' where p: "s0 = pre @ s1" "(g, s') \<in> set (mtch r s1)" by blast
        have "(g0, s0) \<in> set (mtch r s)" using Cons m by simp
        then obtain w where "s = w @ s0" by (auto simp: mtch_denotes)
        then have "s = (w @ pre) @ s1 \<and> (g, s') \<in> set (mtch r s1)" using p by simp
        then show ?thesis by blast
      qed
    next
      case False
      show ?thesis
      proof (cases s)
        case Nil
        with Cons m False "1.prems" have "g = g0" by (simp add: findall.simps[of r "[]"])
        with here show ?thesis by simp
      next
        case (Cons c cs)
        with \<open>mtch r s = m # ms\<close> m False "1.prems" have "g = g0 \<or> g \<in> set (findall r cs)"
          by (simp add: findall.simps[of r "c # cs"])
        then show ?thesis
        proof
          assume "g = g0" with here show ?thesis by simp
        next
          assume "g \<in> set (findall r cs)"
          from "1.IH"(3)[OF \<open>mtch r s = m # ms\<close> m[symmetric] False Cons this]
          obtain pre s1 s' where "cs = pre @ s1" "(g, s') \<in> set (mtch r s1)" by blast
          then have "s = (c # pre) @ s1 \<and> (g, s') \<in> set (mtch r s1)" using Cons by simp
          then show ?thesis by blast
        qed
      qed
    qed
  qed
qed

lemma findall_nonempty:
  "mtch r s1 \<noteq> [] \<Longrightarrow> findall r (pre @ s1) \<noteq> []"
proof (induction pre)
  case Nil
  then obtain m ms where "mtch r s1 = m # ms" by (cases "mtch r s1") auto
  then show ?case by (cases m) (simp add: findall.simps[of r s1])
next
  case (Cons c pre)
  show ?case
  proof (cases "mtch r (c # pre @ s1)")
    case Nil
    then show ?thesis using Cons by (simp add: findall.simps[of r "c # pre @ s1"])
  next
    case (Cons m ms)
    then show ?thesis by (cases m) (simp add: findall.simps[of r "c # pre @ s1"])
  qed
qed

lemma unsigned_decimal_ok:
  "decimal_text s \<Longrightarrow> \<exists>x. unsigned_decimal s = Inr x"
proof -
  assume "decimal_text s"
  then obtain c fp where "dropWhile is_digit s = c # fp" "c = CHR ''.''"
    "takeWhile is_digit s \<noteq> []" "fp \<noteq> []" "list_all is_digit fp"
    unfolding decimal_text_def by (cases "dropWhile is_digit s") simp_all
  then show ?thesis by (simp add: unsigned_decimal_def Let_def)
qed

lemma float_of_latitude:
  "latitude_text s \<Longrightarrow> \<exists>x. float_of_str s = Inr x"
proof -
  assume a: "latitude_text s"
  then obtain c cs where s: "s = c # cs" by (auto simp: latitude_text_def split: list.splits)
  show ?thesis
  proof (cases "is_sign c")
    case True
    then have "decimal_text cs" using a s by (simp add: latitude_text_def)
    from unsigned_decimal_ok[OF this] obtain x where "unsigned_decimal cs = Inr x" by blast
    then show ?thesis using True s by (auto simp: float_of_str_def is_sign_def)
  next
    case False
    then have "decimal_text s" using a s by (simp add: latitude_text_def)
    from unsigned_decimal_ok[OF this] obtain x where "unsigned_decimal s = Inr x" by blast
    then show ?thesis using False s by (auto simp: float_of_str_def is_sign_def)
  qed
qed

lemma float_of_longitude:
  "longitude_text s \<Longrightarrow> \<exists>x. float_of_str s = Inr x"
proof -
  assume a: "longitude_text s"
  then obtain c cs where s: "s = c # cs" and c: "is_sign c" and d: "decimal_text cs"
    by (auto simp: longitude_text_def split: list.splits)
  from unsigned_decimal_ok[OF d] obtain x where "unsigned_decimal cs = Inr x" by blast
  then show ?thesis using c s by (auto simp: float_of_str_def is_sign_def)
qed

lemma try_record_form:
  assumes "latitude_text lat" "longitude_text lon"
  shows "(\<exists>r. try_record (ts, lat, lon) = Inr r) \<longleftrightarrow> (\<exists>t. strptime ts = Inr t)"
proof -
  from float_of_latitude[OF assms(1)] obtain x where x: "float_of_str lat = Inr x" by blast
  from float_of_longitude[OF assms(2)] obtain y where y: "float_of_str lon = Inr y" by blast
  show ?thesis using x y by (cases "strptime ts") (simp_all add: try_record_def)
qed

lemma gps_matches_form:
  assumes "m \<in> set (gps_matches raw_string)"
  shows "\<exists>ts lat lon pre ws1 ws2 post. m = (ts, lat, lon)
           \<and> raw_string = pre @ ts @ ws1 @ lat @ ws2 @ lon @ post
           \<and> gps_text ts ws1 lat ws2 lon"
proof -
  from assms obtain g where g: "g \<in> set (findall gps_pattern raw_string)" and m: "m = as_triple g"
    by (auto simp: gps_matches_def)
  from findall_sound[OF g] obtain pre s1 s' where
    p: "raw_string = pre @ s1" "(g, s') \<in> set (mtch gps_pattern s1)" by blast
  from p(2) obtain ts ws1 lat ws2 lon where
    f: "s1 = ts @ ws1 @ lat @ ws2 @ lon @ s'" "g = [ts, lat, lon]" "gps_text ts ws1 lat ws2 lon"
    unfolding mtch_gps_pattern by (elim exE conjE)
  have "m = (ts, lat, lon)" using m f(2) by (simp add: as_triple_def)
  moreover have "raw_string = pre @ ts @ ws1 @ lat @ ws2 @ lon @ s'" using p(1) f(1) by simp
  ultimately show ?thesis using f(3) by blast
qed

lemma gps_matches_nonempty:
  assumes "raw_string = pre @ ts @ ws1 @ lat @ ws2 @ lon @ post" "gps_text ts ws1 lat ws2 lon"
  shows "gps_matches raw_string \<noteq> []"
proof -
  have "\<exists>ts' ws1' lat' ws2' lon'. ts @ ws1 @ lat @ ws2 @ lon @ post
          = ts' @ ws1' @ lat' @ ws2' @ lon' @ post \<and> [ts, lat, lon] = [ts', lat', lon']
          \<and> gps_text ts' ws1' lat' ws2' lon'"
    using assms(2) by (intro exI conjI) (rule refl)+
  then have "([ts, lat, lon], post) \<in> set (mtch gps_pattern (ts @ ws1 @ lat @ ws2 @ lon @ post))"
    by (rule iffD2[OF mtch_gps_pattern])
  then have "mtch gps_pattern (ts @ ws1 @ lat @ ws2 @ lon @ post) \<noteq> []" by auto
  from findall_nonempty[OF this, of pre] show ?thesis
    using assms(1) by (simp add: gps_matches_def)
qed

text \<open>
  Claim C2, as the code has it. The pattern matches at a place exactly when the text
  there has the form: date and time, white space, a latitude with an optional sign,
  white space, a longitude with a leading sign, each number with digits before and after
  the point. The parser finds a match exactly when the text holds such a substring;
  every match it finds has this form, and gives a record exactly when its date and time
  are a valid datetime. A decimal text without a sign is not a longitude of this form.
\<close>

theorem pattern_form:
  "((g, s') \<in> set (mtch gps_pattern s) \<longleftrightarrow>
      (\<exists>ts ws1 lat ws2 lon. s = ts @ ws1 @ lat @ ws2 @ lon @ s' \<and> g = [ts, lat, lon]
         \<and> gps_text ts ws1 lat ws2 lon))
   \<and> (gps_matches raw_string \<noteq> [] \<longleftrightarrow>
        (\<exists>pre ts ws1 lat ws2 lon post. raw_string = pre @ ts @ ws1 @ lat @ ws2 @ lon @ post
           \<and> gps_text ts ws1 lat ws2 lon))
   \<and> (\<forall>m\<in>set (gps_matches raw_string).
        \<exists>ts lat lon pre ws1 ws2 post. m = (ts, lat, lon)
           \<and> raw_string = pre @ ts @ ws1 @ lat @ ws2 @ lon @ post
           \<and> gps_text ts ws1 lat ws2 lon
           \<and> ((\<exists>r. try_record m = Inr r) \<longleftrightarrow> (\<exists>t. strptime ts = Inr t)))
   \<and> (decimal_text lon' \<longrightarrow> \<not> longitude_text lon')"
proof (intro conjI)
  show "(g, s') \<in> set (mtch gps_pattern s) \<longleftrightarrow>
      (\<exists>ts ws1 lat ws2 lon. s = ts @ ws1 @ lat @ ws2 @ lon @ s' \<and> g = [ts, lat, lon]
         \<and> gps_text ts ws1 lat ws2 lon)"
    by (rule mtch_gps_pattern)
next
  show "gps_matches raw_string \<noteq> [] \<longleftrightarrow>
        (\<exists>pre ts ws1 lat ws2 lon post. raw_string = pre @ ts @ ws1 @ lat @ ws2 @ lon @ post
           \<and> gps_text ts ws1 lat ws2 lon)"
  proof
    assume "gps_matches raw_string \<noteq> []"
    then obtain m where "m \<in> set (gps_matches raw_string)"
      by (cases "gps_matches raw_string") auto
    from gps_matches_form[OF this] show "\<exists>pre ts ws1 lat ws2 lon post.
        raw_string = pre @ ts @ ws1 @ lat @ ws2 @ lon @ post \<and> gps_text ts ws1 lat ws2 lon"
      by blast
  next
    assume "\<exists>pre ts ws1 lat ws2 lon post. raw_string = pre @ ts @ ws1 @ lat @ ws2 @ lon @ post
           \<and> gps_text ts ws1 lat ws2 lon"
    then show "gps_matches raw_string \<noteq> []" using gps_matches_nonempty by blast
  qed
next
  show "\<forall>m\<in>set (gps_matches raw_string).
        \<exists>ts lat lon pre ws1 ws2 post. m = (ts, lat, lon)
           \<and> raw_string = pre @ ts @ ws1 @ lat @ ws2 @ lon @ post
           \<and> gps_text ts ws1 lat ws2 lon
           \<and> ((\<exists>r. try_record m = Inr r) \<longleftrightarrow> (\<exists>t. strptime ts = Inr t))"
  proof
    fix m assume "m \<in> set (gps_matches raw_string)"
    from gps_matches_form[OF this] obtain ts lat lon pre ws1 ws2 post where
      f: "m = (ts, lat, lon)" "raw_string = pre @ ts @ ws1 @ lat @ ws2 @ lon @ post"
      "gps_text ts ws1 lat ws2 lon"
      by blast
    then have "(\<exists>r. try_record m = Inr r) \<longleftrightarrow> (\<exists>t. strptime ts = Inr t)"
      using try_record_form[of lat lon ts] by (simp add: gps_text_def)
    with f show "\<exists>ts lat lon pre ws1 ws2 post. m = (ts, lat, lon)
           \<and> raw_string = pre @ ts @ ws1 @ lat @ ws2 @ lon @ post
           \<and> gps_text ts ws1 lat ws2 lon
           \<and> ((\<exists>r. try_record m = Inr r) \<longleftrightarrow> (\<exists>t. strptime ts = Inr t))"
      by blast
  qed
next
  show "decimal_text lon' \<longrightarrow> \<not> longitude_text lon'"
  proof
    assume "decimal_text lon'"
    from decimal_text_hd[OF this] obtain c cs where "lon' = c # cs" "is_digit c" by blast
    then show "\<not> longitude_text lon'" by (simp add: longitude_text_def not_sign_digit)
  qed
qed

theorem pattern_form_witness:
  "gps_text ''2025:03:31 23:00:35Z'' '' '' ''41.5'' '''' ''-88.5''
   \<and> ([''2025:03:31 23:00:35Z'', ''41.5'', ''-88.5''], ''#'')
        \<in> set (mtch gps_pattern ''2025:03:31 23:00:35Z 41.5-88.5#'')
   \<and> gps_matches ''2025:03:31 23:00:35Z 41.5-88.5#'' \<noteq> []
   \<and> decimal_text ''88.5'' \<and> \<not> longitude_text ''88.5''"
proof -
  have f: "gps_text ''2025:03:31 23:00:35Z'' '' '' ''41.5'' '''' ''-88.5''"
    by code_simp
  have d: "decimal_text ''88.5''" by code_simp
  note t = pattern_form[of "[''2025:03:31 23:00:35Z'', ''41.5'', ''-88.5'']" "''#''"
      "''2025:03:31 23:00:35Z 41.5-88.5#''" "''2025:03:31 23:00:35Z 41.5-88.5#''" "''88.5''"]
  have "\<exists>ts ws1 lat ws2 lon.
          ''2025:03:31 23:00:35Z 41.5-88.5#'' = ts @ ws1 @ lat @ ws2 @ lon @ ''#''
        \<and> [''2025:03:31 23:00:35Z'', ''41.5'', ''-88.5''] = [ts, lat, lon]
        \<and> gps_text ts ws1 lat ws2 lon"
    apply (rule exI[of _ "''2025:03:31 23:00:35Z''"])
    apply (rule exI[of _ "'' ''"])
    apply (rule exI[of _ "''41.5''"])
    apply (rule exI[of _ "''''"])
    apply (rule exI[of _ "''-88.5''"])
    using f apply simp
    done
  then have m: "([''2025:03:31 23:00:35Z'', ''41.5'', ''-88.5''], ''#'')
        \<in> set (mtch gps_pattern ''2025:03:31 23:00:35Z 41.5-88.5#'')"
    by (rule iffD2[OF conjunct1[OF t]])
  have "\<exists>pre ts ws1 lat ws2 lon post.
          ''2025:03:31 23:00:35Z 41.5-88.5#'' = pre @ ts @ ws1 @ lat @ ws2 @ lon @ post
        \<and> gps_text ts ws1 lat ws2 lon"
    apply (rule exI[of _ "''''"])
    apply (rule exI[of _ "''2025:03:31 23:00:35Z''"])
    apply (rule exI[of _ "'' ''"])
    apply (rule exI[of _ "''41.5''"])
    apply (rule exI[of _ "''''"])
    apply (rule exI[of _ "''-88.5''"])
    apply (rule exI[of _ "''#''"])
    using f apply simp
    done
  then have n: "gps_matches ''2025:03:31 23:00:35Z 41.5-88.5#'' \<noteq> []"
    by (rule iffD2[OF conjunct1[OF conjunct2[OF t]]])
  have l: "\<not> longitude_text ''88.5''"
    using conjunct2[OF conjunct2[OF conjunct2[OF t]]] d by (rule mp)
  from f m n d l show ?thesis by (intro conjI)
qed

text \<open>
  Claim C2 as stated lets the longitude go without a sign. The two texts below have the
  stated form with an unsigned longitude, written after the latitude directly and after a
  space; the parser gives no record for either.
\<close>

theorem unsigned_longitude_not_matched:
  "decimal_text ''41.7698047868907'' \<and> decimal_text ''88.120337175205329''
   \<and> timestamp_layout ''2025:03:31 23:00:35Z''
   \<and> fst (parse_gps_data ''2025:03:31 23:00:35Z41.769804786890788.120337175205329'') = []
   \<and> fst (parse_gps_data ''2025:03:31 23:00:35Z41.7698047868907 88.120337175205329'') = []"
  by code_simp

end
